theory Spec2Isabelle
  imports Complex_Main "HOL-Library.Multiset"
begin

section \<open>Python values, exceptions and string primitives\<close>

text \<open>
  The module \<^verbatim>\<open>reacnetgenerator/_detect.py\<close> reads LAMMPS bond files and LAMMPS dump files,
  builds a bond graph for every timestep and cuts it into molecules. Its functions are
  embedded here as HOL functions. Every exception a statement of the source can raise is a
  value \<open>Inl e\<close> of the result type; \<open>ParseError\<close> is the error class of the specification,
  which no statement of the source raises.

  Strings are lists of 8-bit characters, read as the code points 0 to 255 of a Python
  \<^verbatim>\<open>str\<close>.
\<close>

datatype pyerror =
    ValueError string
  | IndexError
  | UnboundLocalError string
  | AttributeError string
  | OverflowError
  | ParseError string

definition bindE :: "pyerror + 'a \<Rightarrow> ('a \<Rightarrow> pyerror + 'b) \<Rightarrow> pyerror + 'b" where
  "bindE m f = (case m of Inl e \<Rightarrow> Inl e | Inr x \<Rightarrow> f x)"

text \<open>A \<^verbatim>\<open>for\<close> loop whose body may raise, and a list comprehension whose element may raise.\<close>

fun foldE :: "('s \<Rightarrow> 'a \<Rightarrow> pyerror + 's) \<Rightarrow> 's \<Rightarrow> 'a list \<Rightarrow> pyerror + 's" where
  "foldE f st [] = Inr st"
| "foldE f st (x # xs) = (case f st x of Inl e \<Rightarrow> Inl e | Inr st' \<Rightarrow> foldE f st' xs)"

fun mapE :: "('a \<Rightarrow> pyerror + 'b) \<Rightarrow> 'a list \<Rightarrow> pyerror + 'b list" where
  "mapE f [] = Inr []"
| "mapE f (x # xs) =
     (case f x of
        Inl e \<Rightarrow> Inl e
      | Inr y \<Rightarrow> (case mapE f xs of Inl e \<Rightarrow> Inl e | Inr ys \<Rightarrow> Inr (y # ys)))"

definition is_ParseError :: "pyerror + 'a \<Rightarrow> bool" where
  "is_ParseError r = (case r of Inl (ParseError _) \<Rightarrow> True | _ \<Rightarrow> False)"

text \<open>\<^verbatim>\<open>str.isspace\<close> on one character: the white space of Unicode below code point 256.\<close>

definition isspace :: "char \<Rightarrow> bool" where
  "isspace c = ((of_char c :: nat) \<in> {9, 10, 11, 12, 13, 28, 29, 30, 31, 32, 133, 160})"

text \<open>The decimal digits that \<^verbatim>\<open>int\<close> accepts, and the value of one.\<close>

definition isdecimal :: "char \<Rightarrow> bool" where
  "isdecimal c = (48 \<le> (of_char c :: nat) \<and> (of_char c :: nat) \<le> 57)"

definition digitval :: "char \<Rightarrow> int" where
  "digitval c = int (of_char c) - 48"

text \<open>
  \<^verbatim>\<open>str.isdigit\<close>: a non-empty string of characters with the Unicode digit property, which
  below code point 256 are the decimal digits and the superscripts two, three and one.
\<close>

definition isdigit_chr :: "char \<Rightarrow> bool" where
  "isdigit_chr c = (isdecimal c \<or> (of_char c :: nat) \<in> {178, 179, 185})"

definition isdigit :: "string \<Rightarrow> bool" where
  "isdigit s = (s \<noteq> [] \<and> list_all isdigit_chr s)"

text \<open>\<^verbatim>\<open>str.startswith\<close>.\<close>

definition startswith :: "string \<Rightarrow> string \<Rightarrow> bool" where
  "startswith s p = (take (length p) s = p)"

text \<open>
  \<^verbatim>\<open>str.split()\<close> without argument: the maximal runs of characters that are not white
  space. \<open>w\<close> is the run read so far.
\<close>

fun split_run :: "string \<Rightarrow> string \<Rightarrow> string list" where
  "split_run w [] = (if w = [] then [] else [w])"
| "split_run w (c # cs) =
     (if isspace c then (if w = [] then split_run [] cs else w # split_run [] cs)
      else split_run (w @ [c]) cs)"

definition split :: "string \<Rightarrow> string list" where
  "split s = split_run [] s"

text \<open>\<^verbatim>\<open>str.split(sep)\<close> for a separator of one character: never an empty list.\<close>

fun split_sep :: "char \<Rightarrow> string \<Rightarrow> string list" where
  "split_sep sep [] = [[]]"
| "split_sep sep (c # cs) =
     (if c = sep then [] # split_sep sep cs
      else (case split_sep sep cs of [] \<Rightarrow> [[c]] | w # ws \<Rightarrow> (c # w) # ws))"

text \<open>
  \<^verbatim>\<open>int(s)\<close> for a string: white space around the literal is dropped, one sign is allowed,
  and the digits may be grouped by single underscores. \<open>None\<close> is the \<^verbatim>\<open>ValueError\<close> of
  Python.
\<close>

fun int_digits :: "int \<Rightarrow> string \<Rightarrow> int option" where
  "int_digits acc [] = Some acc"
| "int_digits acc (c # cs) =
     (if isdecimal c then int_digits (10 * acc + digitval c) cs
      else if c = CHR ''_'' then
        (case cs of
           [] \<Rightarrow> None
         | d # ds \<Rightarrow> if isdecimal d then int_digits (10 * acc + digitval d) ds else None)
      else None)"

definition int_unsigned :: "string \<Rightarrow> int option" where
  "int_unsigned s =
     (case s of [] \<Rightarrow> None
      | c # cs \<Rightarrow> if isdecimal c then int_digits (digitval c) cs else None)"

definition strip :: "string \<Rightarrow> string" where
  "strip s = rev (dropWhile isspace (rev (dropWhile isspace s)))"

definition int_literal :: "string \<Rightarrow> int option" where
  "int_literal s =
     (case strip s of [] \<Rightarrow> None
      | c # cs \<Rightarrow>
          if c = CHR ''-'' then map_option uminus (int_unsigned cs)
          else if c = CHR ''+'' then int_unsigned cs
          else int_unsigned (c # cs))"

definition py_int :: "string \<Rightarrow> pyerror + int" where
  "py_int s = (case int_literal s of None \<Rightarrow> Inl (ValueError s) | Some v \<Rightarrow> Inr v)"

text \<open>
  Indexing a Python list or a numpy array of length \<open>n\<close> with the integer \<open>i\<close>: a negative
  index counts from the end, anything outside \<open>-n \<le> i < n\<close> raises \<^verbatim>\<open>IndexError\<close>.
\<close>

definition py_index :: "nat \<Rightarrow> int \<Rightarrow> pyerror + nat" where
  "py_index n i =
     (if 0 \<le> i \<and> i < int n then Inr (nat i)
      else if - int n \<le> i \<and> i < 0 then Inr (nat (int n + i))
      else Inl IndexError)"

definition getitem :: "'a list \<Rightarrow> int \<Rightarrow> pyerror + 'a" where
  "getitem xs i = bindE (py_index (length xs) i) (\<lambda>k. Inr (xs ! k))"

text \<open>
  The slice \<^verbatim>\<open>xs[i:j]\<close>: a negative bound counts from the end, and both bounds are cut to
  the list.
\<close>

definition slice_bound :: "nat \<Rightarrow> int \<Rightarrow> nat" where
  "slice_bound n i = (if i < 0 then nat (max 0 (int n + i)) else min n (nat i))"

definition py_slice :: "'a list \<Rightarrow> int \<Rightarrow> int \<Rightarrow> 'a list" where
  "py_slice xs i j = drop (slice_bound (length xs) i) (take (slice_bound (length xs) j) xs)"

text \<open>\<^verbatim>\<open>xs[i].append(v)\<close> on a list of lists, for an index already resolved.\<close>

definition append_at :: "'a list list \<Rightarrow> nat \<Rightarrow> 'a \<Rightarrow> 'a list list" where
  "append_at xs k v = xs[k := xs ! k @ [v]]"

section \<open>Floating-point values, atoms and the external libraries\<close>

text \<open>
  A Python \<^verbatim>\<open>float\<close> is a binary64 value: a rational number, an infinity or a NaN.
  Comparison with a rational constant is exact on such values.
\<close>

datatype pyfloat = Finite rat | PosInf | NegInf | NaN

fun float_lt :: "pyfloat \<Rightarrow> rat \<Rightarrow> bool" where
  "float_lt (Finite q) r = (q < r)"
| "float_lt NegInf r = True"
| "float_lt PosInf r = False"
| "float_lt NaN r = False"

text \<open>
  \<^verbatim>\<open>round(x)\<close> of a float: the nearest integer, the even one of the two when \<open>x\<close> lies half
  way; a NaN raises \<^verbatim>\<open>ValueError\<close>, an infinity \<^verbatim>\<open>OverflowError\<close>.
\<close>

definition round_half_even :: "rat \<Rightarrow> int" where
  "round_half_even q =
     (let f = \<lfloor>q\<rfloor>; d = q - of_int f
      in if d < 1 / 2 then f else if 1 / 2 < d then f + 1 else if even f then f else f + 1)"

fun py_round :: "pyfloat \<Rightarrow> pyerror + int" where
  "py_round (Finite q) = Inr (round_half_even q)"
| "py_round NaN = Inl (ValueError ''nan'')"
| "py_round PosInf = Inl OverflowError"
| "py_round NegInf = Inl OverflowError"

text \<open>
  An \<^verbatim>\<open>ase.Atom\<close>: a chemical symbol and a position. The model keeps the symbol as it
  is given; that ase knows the symbol is left to ase.
\<close>

record atom =
  symbol :: string
  position :: "pyfloat \<times> pyfloat \<times> pyfloat"

text \<open>
  What the module calls and does not define is a parameter of the model:
  \<^item> \<open>float_of\<close> is \<^verbatim>\<open>float(s)\<close> on a string, \<open>None\<close> being its \<^verbatim>\<open>ValueError\<close>, and
    \<open>float_sub\<close> is the subtraction of two floats;
  \<^item> \<open>repeat2\<close> is \<^verbatim>\<open>Atoms.repeat(2)\<close> of ase on the atoms with the given cell: the atoms of
    the doubled box, the original ones first;
  \<^item> \<open>nearest_dist\<close> is the distance that \<^verbatim>\<open>cKDTree(positions).query(p, k=1)\<close> of scipy
    returns for one queried atom;
  \<^item> \<open>babel\<close> is the mol2 text that Open Babel writes for the atoms given to it as an xyz
    text;
  \<^item> \<open>listtobytes\<close> is the byte encoding of \<^verbatim>\<open>utils.listtobytes\<close>, once for a list of atom
    indices, once for a list of bonds.
\<close>

record externals =
  float_of :: "string \<Rightarrow> pyfloat option"
  float_sub :: "pyfloat \<Rightarrow> pyfloat \<Rightarrow> pyfloat"
  repeat2 :: "atom list \<Rightarrow> pyfloat list \<Rightarrow> atom list"
  nearest_dist :: "atom list \<Rightarrow> atom \<Rightarrow> pyfloat"
  babel :: "atom list \<Rightarrow> string"
  listtobytes_mol :: "nat list \<Rightarrow> string"
  listtobytes_bond :: "(nat \<times> nat \<times> int) list \<Rightarrow> string"

definition py_float :: "externals \<Rightarrow> string \<Rightarrow> pyerror + pyfloat" where
  "py_float ext x = (case float_of ext x of None \<Rightarrow> Inl (ValueError x) | Some v \<Rightarrow> Inr v)"

section \<open>Bonds from coordinates: \<^verbatim>\<open>_DetectLAMMPSdump._getbondfromcrd\<close>\<close>

text \<open>
  The periodic images (lines 247 to 252): \<open>repeated_atoms\<close> are the atoms of the doubled box
  after the real ones, \<open>nearest\<close> marks those closer than 5 to a real atom, \<open>kept\<close> is
  \<^verbatim>\<open>np.where(nearest)[0]\<close>. The result is \<open>(ghost_atoms, realnumber)\<close>.
\<close>

definition repeated_atoms :: "externals \<Rightarrow> atom list \<Rightarrow> pyfloat list \<Rightarrow> atom list" where
  "repeated_atoms ext step_atoms cell = drop (length step_atoms) (repeat2 ext step_atoms cell)"

definition nearest :: "externals \<Rightarrow> atom list \<Rightarrow> pyfloat list \<Rightarrow> bool list" where
  "nearest ext step_atoms cell =
     map (\<lambda>a. float_lt (nearest_dist ext step_atoms a) 5) (repeated_atoms ext step_atoms cell)"

definition kept :: "externals \<Rightarrow> atom list \<Rightarrow> pyfloat list \<Rightarrow> nat list" where
  "kept ext step_atoms cell =
     filter (\<lambda>i. nearest ext step_atoms cell ! i) [0..<length (nearest ext step_atoms cell)]"

definition ghost_atoms :: "externals \<Rightarrow> atom list \<Rightarrow> pyfloat list \<Rightarrow> atom list" where
  "ghost_atoms ext step_atoms cell =
     map (\<lambda>i. repeated_atoms ext step_atoms cell ! i) (kept ext step_atoms cell)"

definition realnumber :: "externals \<Rightarrow> atom list \<Rightarrow> pyfloat list \<Rightarrow> nat list" where
  "realnumber ext step_atoms cell =
     map (\<lambda>i. i mod length step_atoms) (kept ext step_atoms cell)"

text \<open>
  The state of the loop over the lines of the mol2 text (lines 264 to 288). \<open>realnumber\<close>
  is bound only when periodic boundaries are on: \<open>None\<close> is the unbound local variable.
\<close>

record bondscan =
  linecontent :: int
  bond :: "int list list"
  bondlevel :: "int list list"

definition image_index :: "nat list option \<Rightarrow> int \<Rightarrow> pyerror + int" where
  "image_index rn i =
     (case rn of None \<Rightarrow> Inl (UnboundLocalError ''realnumber'')
      | Some r \<Rightarrow> bindE (getitem r i) (\<lambda>v. Inr (int v)))"

text \<open>
  Lines 279 to 282, reached when not both ends are images: an end that is an image is
  replaced by the real atom of that image.
\<close>

definition remap_images :: "nat \<Rightarrow> nat list option \<Rightarrow> int \<Rightarrow> int \<Rightarrow> pyerror + (int \<times> int)" where
  "remap_images atomnumber rn s1 s2 =
     (if s1 \<ge> int atomnumber then
        bindE (image_index rn (s1 - int atomnumber)) (\<lambda>r. Inr (r, s2))
      else if s2 \<ge> int atomnumber then
        bindE (image_index rn (s2 - int atomnumber)) (\<lambda>r. Inr (s1, r))
      else Inr (s1, s2))"

text \<open>Lines 274 to 288, for the fields \<open>s\<close> of a line with more than three fields.\<close>

definition bond_record :: "nat \<Rightarrow> nat list option \<Rightarrow> bondscan \<Rightarrow> string list \<Rightarrow> pyerror + bondscan" where
  "bond_record atomnumber rn st s =
     bindE (py_int (s ! 1)) (\<lambda>i1.
     bindE (py_int (s ! 2)) (\<lambda>i2.
       if i1 - 1 \<ge> int atomnumber \<and> i2 - 1 \<ge> int atomnumber then Inr st
       else
         bindE (remap_images atomnumber rn (i1 - 1) (i2 - 1)) (\<lambda>(s1, s2).
         bindE (py_index (length (bond st)) s1) (\<lambda>k1.
         bindE (py_index (length (append_at (bond st) k1 s2)) s2) (\<lambda>k2.
         bindE (if s ! 3 = ''ar'' then Inr 12
                else if s ! 3 = ''am'' then Inr 1 else py_int (s ! 3)) (\<lambda>level.
         bindE (py_index (length (bondlevel st)) s1) (\<lambda>j1.
         bindE (py_index (length (append_at (bondlevel st) j1 level)) s2) (\<lambda>j2.
         Inr (st\<lparr>bond := append_at (append_at (bond st) k1 s2) k2 s1,
                 bondlevel := append_at (append_at (bondlevel st) j1 level) j2 level\<rparr>)))))))))"

text \<open>The body of the loop, lines 268 to 288.\<close>

definition bond_line :: "nat \<Rightarrow> nat list option \<Rightarrow> bondscan \<Rightarrow> string \<Rightarrow> pyerror + bondscan" where
  "bond_line atomnumber rn st line =
     (if startswith line ''@<TRIPOS>BOND'' then Inr (st\<lparr>linecontent := 0\<rparr>)
      else if linecontent st = 0 then
        (let s = split line in
         if length s > 3 then bond_record atomnumber rn st s else Inr st)
      else Inr st)"

fun bond_lines :: "nat \<Rightarrow> nat list option \<Rightarrow> bondscan \<Rightarrow> string list \<Rightarrow> pyerror + bondscan" where
  "bond_lines atomnumber rn st [] = Inr st"
| "bond_lines atomnumber rn st (line # lines) =
     (case bond_line atomnumber rn st line of
        Inl e \<Rightarrow> Inl e
      | Inr st' \<Rightarrow> bond_lines atomnumber rn st' lines)"

definition newline :: char where
  "newline = CHR 0x0A"

definition scan_mol2 :: "nat \<Rightarrow> nat list option \<Rightarrow> string \<Rightarrow> pyerror + (int list list \<times> int list list)" where
  "scan_mol2 atomnumber rn text =
     bindE (bond_lines atomnumber rn
              \<lparr>linecontent = - 1, bond = replicate atomnumber [], bondlevel = replicate atomnumber []\<rparr>
              (split_sep newline text))
       (\<lambda>st. Inr (bond st, bondlevel st))"

text \<open>
  Lines 241 to 263: the atoms handed to Open Babel are the real atoms, followed by the kept
  images when periodic boundaries are on; \<open>mol2string\<close> is the text that comes back.
\<close>

definition oracle_atoms :: "externals \<Rightarrow> bool \<Rightarrow> atom list \<Rightarrow> pyfloat list \<Rightarrow> atom list" where
  "oracle_atoms ext pbc step_atoms cell =
     (if pbc then step_atoms @ ghost_atoms ext step_atoms cell else step_atoms)"

definition mol2string :: "externals \<Rightarrow> bool \<Rightarrow> atom list \<Rightarrow> pyfloat list \<Rightarrow> string" where
  "mol2string ext pbc step_atoms cell = babel ext (oracle_atoms ext pbc step_atoms cell)"

definition getbondfromcrd ::
  "externals \<Rightarrow> bool \<Rightarrow> atom list \<Rightarrow> pyfloat list \<Rightarrow> pyerror + (int list list \<times> int list list)" where
  "getbondfromcrd ext pbc step_atoms cell =
     scan_mol2 (length step_atoms)
       (if pbc then Some (realnumber ext step_atoms cell) else None)
       (mol2string ext pbc step_atoms cell)"

text \<open>
  The bond graph as pairs: the neighbours of atom \<open>a\<close> with the order of each bond, as the
  two lists of \<open>a\<close> in the tables \<open>B\<close> (bond) and \<open>L\<close> (bondlevel) give them position by
  position.
\<close>

definition bonds_of :: "int list list \<Rightarrow> int list list \<Rightarrow> nat \<Rightarrow> (int \<times> int) list" where
  "bonds_of B L a = zip (B ! a) (L ! a)"

text \<open>
  A symmetric bond graph: both tables have one entry per atom, the two lists of an atom
  have the same length, every neighbour is an atom, and a bond listed at \<open>a\<close> towards \<open>b\<close>
  is listed at \<open>b\<close> towards \<open>a\<close> with the same order.
\<close>

definition symmetric_graph :: "int list list \<Rightarrow> int list list \<Rightarrow> bool" where
  "symmetric_graph B L =
     (length L = length B \<and>
      (\<forall>a < length B.
         length (L ! a) = length (B ! a) \<and>
         (\<forall>(b, order) \<in> set (bonds_of B L a).
            0 \<le> b \<and> b < int (length B) \<and>
            (int a, order) \<in> set (bonds_of B L (nat b)))))"

text \<open>
  Open Babel numbers the atoms of a mol2 text from 1. \<open>numbered_from_one lc lines\<close> says so
  of the bond records that the loop reads when it starts on \<open>lines\<close> with
  \<open>linecontent = lc\<close>: in each of them the two atom fields, where they are integers, are
  at least 1.
\<close>

definition record_from_one :: "string \<Rightarrow> bool" where
  "record_from_one line =
     (let s = split line in
      length s > 3 \<longrightarrow>
        (case int_literal (s ! 1) of None \<Rightarrow> True | Some v \<Rightarrow> 1 \<le> v) \<and>
        (case int_literal (s ! 2) of None \<Rightarrow> True | Some v \<Rightarrow> 1 \<le> v))"

fun numbered_from_one :: "int \<Rightarrow> string list \<Rightarrow> bool" where
  "numbered_from_one lc [] = True"
| "numbered_from_one lc (line # lines) =
     (if startswith line ''@<TRIPOS>BOND'' then numbered_from_one 0 lines
      else (lc = 0 \<longrightarrow> record_from_one line) \<and> numbered_from_one lc lines)"

text \<open>
  The order recorded for a bond of mol2 type \<open>t\<close> (lines 285 and 286): 12 for an aromatic
  bond, 1 for an amide bond, the integer that the field spells otherwise.
\<close>

definition order_of :: "string \<Rightarrow> int \<Rightarrow> bool" where
  "order_of t order =
     ((t = ''ar'' \<longrightarrow> order = 12) \<and>
      (t = ''am'' \<longrightarrow> order = 1) \<and>
      (t \<noteq> ''ar'' \<and> t \<noteq> ''am'' \<longrightarrow> py_int t = Inr order))"

subsection \<open>The bonds that a mol2 text reports\<close>

text \<open>
  The statements about the returned graph are made against the bond records of the text.
  The definitions of this subsection follow the wording of the claims about the coordinate
  path, not the loop of the source; the theorems compare the two. \<open>bond_records\<close> are the fields of the lines
  with more than three fields that follow a line starting with \<^verbatim>\<open>@<TRIPOS>BOND\<close>. The
  ends of a record are its second and third field less one; an end is an image when it is
  not below the number \<open>n\<close> of real atoms, and the real atom of an image is the entry of
  \<open>realnumber\<close> at the position of the image among the images. The order of a record is
  what its type field gives: 12 for \<open>ar\<close>, 1 for \<open>am\<close>, the integer it spells otherwise.
  \<open>recorded\<close> are the records that are not between two images, each as the pair of its
  real atoms with its order, in the order of the text. \<open>entries a\<close> is what these bonds
  put into the lists of atom \<open>a\<close>: for each bond, the other end and the order, once for
  each end of the bond that is \<open>a\<close>.
\<close>

definition the_int :: "string \<Rightarrow> int" where
  "the_int s = (case int_literal s of None \<Rightarrow> 0 | Some v \<Rightarrow> v)"

fun records_from :: "bool \<Rightarrow> string list \<Rightarrow> string list list" where
  "records_from inside [] = []"
| "records_from inside (line # lines) =
     (if startswith line ''@<TRIPOS>BOND'' then records_from True lines
      else if inside \<and> length (split line) > 3 then split line # records_from inside lines
      else records_from inside lines)"

definition bond_records :: "string \<Rightarrow> string list list" where
  "bond_records text = records_from False (split_sep newline text)"

definition record_ends :: "string list \<Rightarrow> int \<times> int" where
  "record_ends s = (the_int (s ! 1) - 1, the_int (s ! 2) - 1)"

definition both_images :: "nat \<Rightarrow> string list \<Rightarrow> bool" where
  "both_images n s = (int n \<le> fst (record_ends s) \<and> int n \<le> snd (record_ends s))"

definition real_index :: "nat \<Rightarrow> nat list \<Rightarrow> int \<Rightarrow> int" where
  "real_index n rn e = (if int n \<le> e then int (rn ! nat (e - int n)) else e)"

definition order_value :: "string \<Rightarrow> int" where
  "order_value t = (if t = ''ar'' then 12 else if t = ''am'' then 1 else the_int t)"

definition recorded :: "nat \<Rightarrow> nat list \<Rightarrow> string list list \<Rightarrow> (int \<times> int \<times> int) list" where
  "recorded n rn rs =
     map (\<lambda>s. (real_index n rn (fst (record_ends s)), real_index n rn (snd (record_ends s)),
               order_value (s ! 3)))
       (filter (\<lambda>s. \<not> both_images n s) rs)"

definition entries :: "nat \<Rightarrow> (int \<times> int \<times> int) list \<Rightarrow> (int \<times> int) list" where
  "entries a bs =
     concat (map (\<lambda>(x, y, order).
                (if x = int a then [(y, order)] else []) @ (if y = int a then [(x, order)] else []))
               bs)"

text \<open>
  The bonds to be recorded for a timestep: those of the text that Open Babel returns for
  its atoms, with the images resolved by \<open>realnumber\<close> when periodic boundaries are on.
\<close>

definition recorded_bonds ::
  "externals \<Rightarrow> bool \<Rightarrow> atom list \<Rightarrow> pyfloat list \<Rightarrow> (int \<times> int \<times> int) list" where
  "recorded_bonds ext pbc step_atoms cell =
     recorded (length step_atoms) (if pbc then realnumber ext step_atoms cell else [])
       (bond_records (mol2string ext pbc step_atoms cell))"

text \<open>
  The tables of a state of the loop are aligned when each has one entry for every real
  atom and the two lists of an atom have the same length.
\<close>

definition aligned :: "nat \<Rightarrow> bondscan \<Rightarrow> bool" where
  "aligned n st =
     (length (bond st) = n \<and> length (bondlevel st) = n \<and>
      list_all (\<lambda>a. length (bondlevel st ! a) = length (bond st ! a)) [0..<n])"

subsection \<open>An example: two atoms bonded across the periodic seam\<close>

text \<open>
  An oxygen at \<open>x = 0.5\<close> and a hydrogen at \<open>x = 9.5\<close> in a cubic box of edge 10. The doubled
  box holds the eight translates of the two atoms, in the order in which ase enumerates
  them. The image of the oxygen translated by one box along \<open>x\<close> is at distance 1 from the
  hydrogen; every other image is 10 or more away from both atoms. Open Babel, given the two
  atoms and that image as third atom, reports one bond, between atoms 2 and 3. The bytes
  of a list are written here as one decimal digit for every number.
\<close>

fun float_add :: "pyfloat \<Rightarrow> rat \<Rightarrow> pyfloat" where
  "float_add (Finite q) r = Finite (q + r)"
| "float_add x r = x"

definition translate :: "rat \<times> rat \<times> rat \<Rightarrow> atom \<Rightarrow> atom" where
  "translate t a =
     (case (t, position a) of
        ((tx, ty, tz), (x, y, z)) \<Rightarrow>
          a\<lparr>position := (float_add x tx, float_add y ty, float_add z tz)\<rparr>)"

definition example_atoms :: "atom list" where
  "example_atoms =
     [\<lparr>symbol = ''O'', position = (Finite (1 / 2), Finite 5, Finite 5)\<rparr>,
      \<lparr>symbol = ''H'', position = (Finite (19 / 2), Finite 5, Finite 5)\<rparr>]"

definition example_mol2 :: string where
  "example_mol2 =
     ''@<TRIPOS>MOLECULE'' @ [newline] @
     '' 3 1 0 0 0'' @ [newline] @
     ''@<TRIPOS>ATOM'' @ [newline] @
     ''      1 O    0.5000    5.0000    5.0000 O.3    1  UNL1   0.0000'' @ [newline] @
     ''      2 H    9.5000    5.0000    5.0000 H      1  UNL1   0.0000'' @ [newline] @
     ''      3 O   10.5000    5.0000    5.0000 O.3    1  UNL1   0.0000'' @ [newline] @
     ''@<TRIPOS>BOND'' @ [newline] @
     ''     1     2     3    1'' @ [newline]"

definition example_externals :: externals where
  "example_externals =
     \<lparr>float_of = (\<lambda>s. None),
      float_sub = (\<lambda>x y. NaN),
      repeat2 = (\<lambda>atoms cell.
        concat (map (\<lambda>t. map (translate t) atoms)
          [(0, 0, 0), (0, 0, 10), (0, 10, 0), (0, 10, 10),
           (10, 0, 0), (10, 0, 10), (10, 10, 0), (10, 10, 10)])),
      nearest_dist = (\<lambda>atoms a.
        if position a = (Finite (21 / 2), Finite 5, Finite 5) then Finite 1 else Finite 10),
      babel = (\<lambda>atoms. example_mol2),
      listtobytes_mol = (\<lambda>mol. map (\<lambda>a. char_of (48 + a)) mol),
      listtobytes_bond = (\<lambda>bonds.
        concat (map (\<lambda>(a, b, l). [char_of (48 + a), char_of (48 + b), char_of (48 + nat l)])
          bonds))\<rparr>"

subsection \<open>An example: a square lattice in a small box\<close>

text \<open>
  Two carbon atoms in a box of edges 2.1, 2.1 and 20: one at the origin of the plane
  \<open>z = 10\<close> and one at \<open>(0.9, 0.9)\<close> in it. The six images in that plane are all closer
  than 5 to a real atom (the distances are 1.5, 2.1, 1.5, 2.1, and about 1.7 and 2.97),
  the eight images in the plane \<open>z = 30\<close> are 20 or more away. Open Babel is given the two
  atoms and the six images, as atoms 3 to 8, and reports the nine pairs that are closer
  than 1.7: the two real atoms, the second atom with each of the three images of the first
  one, and five pairs of images.
\<close>

definition lattice_atoms :: "atom list" where
  "lattice_atoms =
     [\<lparr>symbol = ''C'', position = (Finite 0, Finite 0, Finite 10)\<rparr>,
      \<lparr>symbol = ''C'', position = (Finite (9 / 10), Finite (9 / 10), Finite 10)\<rparr>]"

definition lattice_cell :: "pyfloat list" where
  "lattice_cell = [Finite (21 / 10), Finite (21 / 10), Finite 20]"

definition lattice_mol2 :: string where
  "lattice_mol2 =
     ''@<TRIPOS>MOLECULE'' @ [newline] @
     '' 8 9 0 0 0'' @ [newline] @
     ''@<TRIPOS>ATOM'' @ [newline] @
     ''      1 C    0.0000    0.0000   10.0000 C.ar    1  UNL1   0.0000'' @ [newline] @
     ''      2 C    0.9000    0.9000   10.0000 C.ar    1  UNL1   0.0000'' @ [newline] @
     ''      3 C    0.0000    2.1000   10.0000 C.ar    1  UNL1   0.0000'' @ [newline] @
     ''      4 C    0.9000    3.0000   10.0000 C.ar    1  UNL1   0.0000'' @ [newline] @
     ''      5 C    2.1000    0.0000   10.0000 C.ar    1  UNL1   0.0000'' @ [newline] @
     ''      6 C    3.0000    0.9000   10.0000 C.ar    1  UNL1   0.0000'' @ [newline] @
     ''      7 C    2.1000    2.1000   10.0000 C.ar    1  UNL1   0.0000'' @ [newline] @
     ''      8 C    3.0000    3.0000   10.0000 C.ar    1  UNL1   0.0000'' @ [newline] @
     ''@<TRIPOS>BOND'' @ [newline] @
     ''     1     1     2   ar'' @ [newline] @
     ''     2     2     3   ar'' @ [newline] @
     ''     3     2     5   ar'' @ [newline] @
     ''     4     2     7   ar'' @ [newline] @
     ''     5     3     4   ar'' @ [newline] @
     ''     6     4     7   ar'' @ [newline] @
     ''     7     5     6   ar'' @ [newline] @
     ''     8     6     7   ar'' @ [newline] @
     ''     9     7     8   ar'' @ [newline]"

definition lattice_externals :: externals where
  "lattice_externals =
     example_externals
       \<lparr>repeat2 := (\<lambda>atoms cell.
          concat (map (\<lambda>t. map (translate t) atoms)
            [(0, 0, 0), (0, 0, 20), (0, 21 / 10, 0), (0, 21 / 10, 20),
             (21 / 10, 0, 0), (21 / 10, 0, 20), (21 / 10, 21 / 10, 0), (21 / 10, 21 / 10, 20)])),
        nearest_dist := (\<lambda>atoms a.
          if position a = (Finite 0, Finite (21 / 10), Finite 10) then Finite (3 / 2)
          else if position a = (Finite (9 / 10), Finite 3, Finite 10) then Finite (21 / 10)
          else if position a = (Finite (21 / 10), Finite 0, Finite 10) then Finite (3 / 2)
          else if position a = (Finite 3, Finite (9 / 10), Finite 10) then Finite (21 / 10)
          else if position a = (Finite (21 / 10), Finite (21 / 10), Finite 10) then Finite (17 / 10)
          else if position a = (Finite 3, Finite 3, Finite 10) then Finite (297 / 100)
          else Finite 20),
        babel := (\<lambda>atoms. lattice_mol2)\<rparr>"

section \<open>Molecule extraction: \<^verbatim>\<open>dps\<close> and \<^verbatim>\<open>_Detect._connectmolecule\<close>\<close>

text \<open>
  The bond graph handed to the extraction: one entry per atom in each of two tables, the
  neighbours and the bond orders. An entry is \<open>None\<close> for an atom of which the reader
  recorded nothing (\<^verbatim>\<open>[None]*self.N\<close> in the bond-file reader).
\<close>

type_synonym table = "int list option list"

text \<open>
  Modelled from the spec: the function \<^verbatim>\<open>dps\<close> of the module \<^verbatim>\<open>dps\<close>, which
  \<^verbatim>\<open>_connectmolecule\<close> calls and which is not among the sources. The specification (section
  4.3) describes it: the input is a bond graph of size N in which null entries are atoms
  without neighbours; an iterative depth-first traversal with an explicit stack computes
  the connected components; for each component the edge list is rebuilt with the bond
  orders, in the order in which the bonds are first discovered. The specification does not
  say what a neighbour outside \<open>0..N-1\<close> does; here it is the \<^verbatim>\<open>IndexError\<close> of reading the
  visited flag of an atom that does not exist.

  \<open>neighbours\<close> pairs the neighbours of an atom with the bond orders.
\<close>

definition neighbours :: "table \<Rightarrow> table \<Rightarrow> nat \<Rightarrow> (int \<times> int) list" where
  "neighbours bonds levels s =
     (case (bonds ! s, levels ! s) of
        (Some bs, Some ls) \<Rightarrow> zip bs ls
      | _ \<Rightarrow> [])"

text \<open>
  Visiting atom \<open>s\<close>: every neighbour not yet visited is pushed on the stack, and the bond
  to it is added to the edge list of the component.
\<close>

fun push_neighbours ::
  "bool list \<Rightarrow> nat \<Rightarrow> (int \<times> int) list \<Rightarrow> nat list \<Rightarrow> (nat \<times> nat \<times> int) list
     \<Rightarrow> pyerror + (nat list \<times> (nat \<times> nat \<times> int) list)" where
  "push_neighbours visited s [] stack bl = Inr (stack, bl)"
| "push_neighbours visited s ((b, l) # rest) stack bl =
     (if b < 0 \<or> int (length visited) \<le> b then Inl IndexError
      else if visited ! nat b then push_neighbours visited s rest stack bl
      else push_neighbours visited s rest (nat b # stack) (bl @ [(s, nat b, l)]))"

text \<open>
  The traversal of one component. The head of \<open>stack\<close> is its top; \<open>mol\<close> and \<open>bl\<close> are the
  atoms and the bonds collected so far.
\<close>

function dfs ::
  "table \<Rightarrow> table \<Rightarrow> nat list \<Rightarrow> bool list \<Rightarrow> nat list \<Rightarrow> (nat \<times> nat \<times> int) list
     \<Rightarrow> pyerror + (bool list \<times> nat list \<times> (nat \<times> nat \<times> int) list)" where
  "dfs bonds levels [] visited mol bl = Inr (visited, mol, bl)"
| "dfs bonds levels (s # stack) visited mol bl =
     (if length visited \<le> s then Inl IndexError
      else if visited ! s then dfs bonds levels stack visited mol bl
      else
        (case push_neighbours (visited[s := True]) s (neighbours bonds levels s) stack bl of
           Inl e \<Rightarrow> Inl e
         | Inr (stack', bl') \<Rightarrow> dfs bonds levels stack' (visited[s := True]) (mol @ [s]) bl'))"
  by pat_completeness auto
termination dfs
proof -
  have fewer: "card {i. i < length v \<and> \<not> v[s := True] ! i}
      < card {i. i < length v \<and> \<not> v ! i}"
    if "s < length v" and "\<not> v ! s" for v :: "bool list" and s
  proof (rule psubset_card_mono)
    show "finite {i. i < length v \<and> \<not> v ! i}" by simp
    from that show "{i. i < length v \<and> \<not> v[s := True] ! i}
        \<subset> {i. i < length v \<and> \<not> v ! i}"
      by (auto simp: nth_list_update split: if_splits)
  qed
  show ?thesis
  proof (relation "inv_image (less_than <*lex*> less_than)
      (\<lambda>(bonds, levels, stack, visited, mol, bl).
         (card {i. i < length visited \<and> \<not> visited ! i}, length stack))")
    show "wf (inv_image (less_than <*lex*> less_than)
      (\<lambda>(bonds, levels, stack, visited, mol, bl).
         (card {i. i < length visited \<and> \<not> visited ! i}, length stack)))"
      by (intro wf_inv_image wf_lex_prod wf_less_than)
  qed (simp_all add: fewer)
qed

text \<open>The loop over the atoms: every atom not yet visited starts a new component.\<close>

fun dps_from ::
  "table \<Rightarrow> table \<Rightarrow> nat list \<Rightarrow> bool list
     \<Rightarrow> pyerror + (nat list list \<times> (nat \<times> nat \<times> int) list list)" where
  "dps_from bonds levels [] visited = Inr ([], [])"
| "dps_from bonds levels (i # rest) visited =
     (if visited ! i then dps_from bonds levels rest visited
      else
        (case dfs bonds levels [i] visited [] [] of
           Inl e \<Rightarrow> Inl e
         | Inr (visited', mol, bl) \<Rightarrow>
             (case dps_from bonds levels rest visited' of
                Inl e \<Rightarrow> Inl e
              | Inr (molecule, bondlist) \<Rightarrow> Inr (mol # molecule, bl # bondlist))))"

definition dps ::
  "table \<Rightarrow> table \<Rightarrow> pyerror + (nat list list \<times> (nat \<times> nat \<times> int) list list)" where
  "dps bonds levels =
     dps_from bonds levels [0..<length bonds] (replicate (length bonds) False)"

text \<open>
  Lines 105 to 107: every molecule becomes the bytes of its atoms, a space and the bytes of
  its bonds.
\<close>

definition connectmolecule :: "externals \<Rightarrow> table \<Rightarrow> table \<Rightarrow> pyerror + string list" where
  "connectmolecule ext bonds levels =
     bindE (dps bonds levels) (\<lambda>(molecule, bondlist).
       Inr (map (\<lambda>(mol, bl). listtobytes_mol ext mol @ '' '' @ listtobytes_bond ext bl)
              (zip molecule bondlist)))"

text \<open>
  A well-formed bond graph names only atoms \<open>0..N-1\<close> as neighbours; a symmetric one lists
  every bond at both of its atoms with the same order.
\<close>

definition wellformed :: "table \<Rightarrow> table \<Rightarrow> bool" where
  "wellformed bonds levels =
     (\<forall>s < length bonds. \<forall>(b, l) \<in> set (neighbours bonds levels s).
        0 \<le> b \<and> b < int (length bonds))"

definition symmetric :: "table \<Rightarrow> table \<Rightarrow> bool" where
  "symmetric bonds levels =
     (\<forall>s < length bonds. \<forall>(b, l) \<in> set (neighbours bonds levels s).
        (int s, l) \<in> set (neighbours bonds levels (nat b)))"

text \<open>The atoms that a table of visited flags marks.\<close>

definition seen :: "bool list \<Rightarrow> nat set" where
  "seen v = {i. i < length v \<and> v ! i}"

text \<open>
  An example: atoms 0, 1 and 2 in a chain with a single and a double bond, atom 3 without
  an entry, atom 4 with an empty entry.
\<close>

definition example_bonds :: table where
  "example_bonds = [Some [1], Some [0, 2], Some [1], None, Some []]"

definition example_levels :: table where
  "example_levels = [Some [1], Some [1, 2], Some [2], None, Some []]"

section \<open>The bond-file reader: \<^verbatim>\<open>_DetectLAMMPSbond._readstepfunc\<close>\<close>

text \<open>
  The two \<^verbatim>\<open>lambda\<close> of lines 152 to 154: a neighbour field is an atom number from 1, a
  bond-order field is a decimal number, rounded and raised to 1 when below.
\<close>

definition neighbour_of :: "string \<Rightarrow> pyerror + int" where
  "neighbour_of x = bindE (py_int x) (\<lambda>v. Inr (v - 1))"

definition bond_order :: "externals \<Rightarrow> string \<Rightarrow> pyerror + int" where
  "bond_order ext x = bindE (py_float ext x) (\<lambda>v. bindE (py_round v) (\<lambda>r. Inr (max 1 r)))"

text \<open>
  \<^verbatim>\<open>map\<close> is lazy: an entry of the tables holds, for every field, the value or the exception
  that the conversion of the field gives when the entry is read.
\<close>

type_synonym thunks = "(pyerror + int) list"

text \<open>
  The body of the loop, lines 144 to 154. The state is \<open>(bond, level, timestep)\<close>;
  \<open>timestep\<close> is \<open>None\<close> while the variable is unbound. A line that is empty is skipped, as
  is a missing one (\<^verbatim>\<open>None\<close>), which the model writes as the empty line.
\<close>

definition readstep_bond_line ::
  "externals \<Rightarrow> thunks option list \<times> thunks option list \<times> int option \<Rightarrow> string
     \<Rightarrow> pyerror + (thunks option list \<times> thunks option list \<times> int option)" where
  "readstep_bond_line ext st line =
     (case st of (bnd, lvl, ts) \<Rightarrow>
        if line = [] then Inr st
        else if hd line = CHR ''#'' then
          (if startswith line ''# Timestep'' then
             bindE (getitem (split line) (- 1)) (\<lambda>f.
             bindE (py_int f) (\<lambda>t. Inr (bnd, lvl, Some t)))
           else Inr st)
        else
          (let s = split line in
           bindE (getitem s 0) (\<lambda>f0.
           bindE (py_int f0) (\<lambda>i0.
           bindE (getitem s 2) (\<lambda>f2.
           bindE (py_int f2) (\<lambda>s2.
           bindE (py_index (length bnd) (i0 - 1)) (\<lambda>k.
           bindE (py_index (length lvl) (i0 - 1)) (\<lambda>k'.
             Inr (bnd[k := Some (map neighbour_of (py_slice s 3 (3 + s2)))],
                  lvl[k' := Some (map (bond_order ext) (py_slice s (4 + s2) (4 + 2 * s2)))],
                  ts)))))))))"

text \<open>
  Reading the entries of an atom, as \<^verbatim>\<open>zip\<close> does: the neighbour first, then the order, until
  one of the two runs out. An entry is read once, when the traversal visits its atom; the
  model reads all of them before the traversal, in the order of the atoms, so that of
  several failing conversions it may report another one than Python does.
\<close>

fun lazy_zip :: "thunks \<Rightarrow> thunks \<Rightarrow> pyerror + (int \<times> int) list" where
  "lazy_zip [] ys = Inr []"
| "lazy_zip (x # xs) ys =
     (case x of
        Inl e \<Rightarrow> Inl e
      | Inr a \<Rightarrow>
          (case ys of
             [] \<Rightarrow> Inr []
           | y # ys' \<Rightarrow>
               (case y of
                  Inl e \<Rightarrow> Inl e
                | Inr b \<Rightarrow>
                    (case lazy_zip xs ys' of
                       Inl e \<Rightarrow> Inl e
                     | Inr ps \<Rightarrow> Inr ((a, b) # ps)))))"

definition force_entry ::
  "thunks option \<times> thunks option \<Rightarrow> pyerror + (int list option \<times> int list option)" where
  "force_entry e =
     (case e of
        (Some xs, Some ys) \<Rightarrow> bindE (lazy_zip xs ys) (\<lambda>ps. Inr (Some (map fst ps), Some (map snd ps)))
      | _ \<Rightarrow> Inr (None, None))"

definition force_tables :: "thunks option list \<Rightarrow> thunks option list \<Rightarrow> pyerror + (table \<times> table)" where
  "force_tables bnd lvl = bindE (mapE force_entry (zip bnd lvl)) (\<lambda>es. Inr (map fst es, map snd es))"

text \<open>Lines 139 to 156, for the atom count \<open>N\<close> of the header.\<close>

definition readstepfunc_bond ::
  "externals \<Rightarrow> nat \<Rightarrow> nat \<times> string list \<Rightarrow> pyerror + (string list \<times> nat \<times> int)" where
  "readstepfunc_bond ext N item =
     (case item of (step, lines) \<Rightarrow>
        bindE (foldE (readstep_bond_line ext) (replicate N None, replicate N None, None) lines)
          (\<lambda>(bnd, lvl, ts).
        bindE (force_tables bnd lvl) (\<lambda>(bonds, levels).
        bindE (connectmolecule ext bonds levels) (\<lambda>molecules.
          (case ts of
             None \<Rightarrow> Inl (UnboundLocalError ''timestep'')
           | Some t \<Rightarrow> Inr (molecules, (step, t)))))))"

text \<open>
  An example: the reader of decimal numbers returns the binary64 value nearest to 1.4 for
  the field \<open>1.4\<close>, and one timestep of a bond file with two atoms bonded to each other.
\<close>

definition example_float :: "string \<Rightarrow> pyfloat option" where
  "example_float s =
     (if s = ''1.4'' then Some (Finite (6305039478318694 / 4503599627370496))
      else if s = ''0.000'' then Some (Finite 0)
      else None)"

definition example_bond_externals :: externals where
  "example_bond_externals = example_externals\<lparr>float_of := example_float\<rparr>"

definition example_bond_lines :: "string list" where
  "example_bond_lines =
     [''# Timestep 0'', ''# '', ''# Number of particles 2'', ''# '',
      '' 1 1 1 2 0 1.4 1.4 0.000 0.000'', '' 2 1 1 1 0 1.4 1.4 0.000 0.000'', ''# '']"

section \<open>The header scan: \<^verbatim>\<open>_readNfunc\<close>\<close>

text \<open>
  What the header scan leaves in the object: the atom count \<^verbatim>\<open>self.N\<close>, the atom types
  \<^verbatim>\<open>self.atomtype\<close> and, for a dump file, the columns of the atom lines. A column attribute
  is \<open>None\<close> while it has not been set.
\<close>

record header =
  attr_N :: nat
  attr_atomtype :: "int list"
  attr_id_idx :: "int option"
  attr_tidx :: "int option"
  attr_xidx :: "int option"
  attr_yidx :: "int option"
  attr_zidx :: "int option"

text \<open>
  The local variables of the scan: \<open>natoms\<close> holds \<^verbatim>\<open>N\<close> and \<^verbatim>\<open>atomtype\<close>, which are bound
  together; \<open>stepaindex\<close> is read only when \<open>iscompleted\<close> is set; \<open>content\<close> is the variable
  \<^verbatim>\<open>linecontent\<close> of the dump scan.
\<close>

datatype LineType = TIMESTEP | ATOMS | NUMBER | BOX | OTHER

record headscan =
  iscompleted :: bool
  stepaindex :: nat
  natoms :: "(nat \<times> int list) option"
  content :: "LineType option"
  id_idx :: "int option"
  tidx :: "int option"
  xidx :: "int option"
  yidx :: "int option"
  zidx :: "int option"

definition headscan_init :: headscan where
  "headscan_init =
     \<lparr>iscompleted = False, stepaindex = 0, natoms = None, content = None,
      id_idx = None, tidx = None, xidx = None, yidx = None, zidx = None\<rparr>"

text \<open>\<^verbatim>\<open>np.zeros(N, dtype=int)\<close>: a negative length raises \<^verbatim>\<open>ValueError\<close>.\<close>

definition zeros :: "int \<Rightarrow> pyerror + (nat \<times> int list)" where
  "zeros n =
     (if n < 0 then Inl (ValueError ''negative dimensions are not allowed'')
      else Inr (nat n, replicate (nat n) 0))"

text \<open>
  \<^verbatim>\<open>atomtype[int(s[0])-1] = int(s[1])-1\<close>: the right-hand side is evaluated first, then the
  array, then the index.
\<close>

definition store_atomtype :: "headscan \<Rightarrow> string list \<Rightarrow> pyerror + headscan" where
  "store_atomtype st s =
     bindE (getitem s 1) (\<lambda>f1.
     bindE (py_int f1) (\<lambda>t.
       (case natoms st of
          None \<Rightarrow> Inl (UnboundLocalError ''atomtype'')
        | Some (n, atomtype) \<Rightarrow>
            bindE (getitem s 0) (\<lambda>f0.
            bindE (py_int f0) (\<lambda>i.
            bindE (py_index (length atomtype) (i - 1)) (\<lambda>k.
              Inr (st\<lparr>natoms := Some (n, atomtype[k := t - 1])\<rparr>)))))))"

text \<open>
  The first count line sets \<open>iscompleted\<close>; the second one ends the scan with the number of
  lines between the two. The result of a line is that number when the scan ends there.
\<close>

definition readN_bond_line :: "nat \<Rightarrow> headscan \<Rightarrow> string \<Rightarrow> pyerror + (nat option \<times> headscan)" where
  "readN_bond_line index st line =
     (if line = [] then Inl IndexError
      else if hd line = CHR ''#'' then
        (if startswith line ''# Number of particles'' then
           (if iscompleted st then Inr (Some (index - stepaindex st), st)
            else
              bindE (mapE py_int (filter isdigit (split line))) (\<lambda>numbers.
              bindE (getitem numbers 0) (\<lambda>n.
              bindE (zeros n) (\<lambda>na.
                Inr (None, st\<lparr>iscompleted := True, stepaindex := index, natoms := Some na\<rparr>)))))
         else Inr (None, st))
      else bindE (store_atomtype st (split line)) (\<lambda>st'. Inr (None, st')))"

text \<open>\<^verbatim>\<open>LineType.linecontent\<close> and \<^verbatim>\<open>list.index\<close>.\<close>

definition linecontent_of :: "string \<Rightarrow> LineType" where
  "linecontent_of line =
     (if startswith line ''ITEM: TIMESTEP'' then TIMESTEP
      else if startswith line ''ITEM: ATOMS'' then ATOMS
      else if startswith line ''ITEM: NUMBER OF ATOMS'' then NUMBER
      else if startswith line ''ITEM: BOX'' then BOX
      else OTHER)"

fun position_of :: "string list \<Rightarrow> string \<Rightarrow> nat option" where
  "position_of [] x = None"
| "position_of (y # ys) x = (if y = x then Some 0 else map_option Suc (position_of ys x))"

definition list_index :: "string list \<Rightarrow> string \<Rightarrow> pyerror + int" where
  "list_index keys x =
     (case position_of keys x of None \<Rightarrow> Inl (ValueError x) | Some k \<Rightarrow> Inr (int k))"

definition readN_dump_line :: "nat \<Rightarrow> headscan \<Rightarrow> string \<Rightarrow> pyerror + (nat option \<times> headscan)" where
  "readN_dump_line index st line =
     (if startswith line ''ITEM:'' then
        (if linecontent_of line = ATOMS then
           (let keys = split line in
            bindE (list_index keys ''id'') (\<lambda>i.
            bindE (list_index keys ''type'') (\<lambda>t.
            bindE (list_index keys ''x'') (\<lambda>x.
            bindE (list_index keys ''y'') (\<lambda>y.
            bindE (list_index keys ''z'') (\<lambda>z.
              Inr (None, st\<lparr>content := Some ATOMS, id_idx := Some (i - 2), tidx := Some (t - 2),
                              xidx := Some (x - 2), yidx := Some (y - 2),
                              zidx := Some (z - 2)\<rparr>)))))))
         else Inr (None, st\<lparr>content := Some (linecontent_of line)\<rparr>))
      else
        (case content st of
           None \<Rightarrow> Inl (UnboundLocalError ''linecontent'')
         | Some NUMBER \<Rightarrow>
             (if iscompleted st then Inr (Some (index - stepaindex st), st)
              else
                bindE (getitem (split line) 0) (\<lambda>f.
                bindE (py_int f) (\<lambda>n.
                bindE (zeros n) (\<lambda>na.
                  Inr (None, st\<lparr>iscompleted := True, stepaindex := index, natoms := Some na\<rparr>)))))
         | Some ATOMS \<Rightarrow> bindE (store_atomtype st (split line)) (\<lambda>st'. Inr (None, st'))
         | Some _ \<Rightarrow> Inr (None, st)))"

text \<open>
  The \<^verbatim>\<open>for\<close> loop with its \<^verbatim>\<open>else\<close> branch: when the lines run out, the number of lines of
  a timestep is the number of lines read.
\<close>

fun readN_loop ::
  "(nat \<Rightarrow> headscan \<Rightarrow> string \<Rightarrow> pyerror + (nat option \<times> headscan))
     \<Rightarrow> nat \<Rightarrow> headscan \<Rightarrow> string list \<Rightarrow> pyerror + (nat \<times> headscan)" where
  "readN_loop body index st [] = Inr (index, st)"
| "readN_loop body index st (line # lines) =
     (case body index st line of
        Inl e \<Rightarrow> Inl e
      | Inr (Some steplinenum, st') \<Rightarrow> Inr (steplinenum, st')
      | Inr (None, st') \<Rightarrow> readN_loop body (Suc index) st' lines)"

text \<open>
  The whole scan: with no line at all \<^verbatim>\<open>index\<close> is unbound in the \<^verbatim>\<open>else\<close> branch, and
  without a count line \<^verbatim>\<open>N\<close> is unbound at the end.
\<close>

definition readN ::
  "(nat \<Rightarrow> headscan \<Rightarrow> string \<Rightarrow> pyerror + (nat option \<times> headscan))
     \<Rightarrow> string list \<Rightarrow> pyerror + (nat \<times> header)" where
  "readN body f =
     (if f = [] then Inl (UnboundLocalError ''index'')
      else
        bindE (readN_loop body 0 headscan_init f) (\<lambda>(steplinenum, st).
          (case natoms st of
             None \<Rightarrow> Inl (UnboundLocalError ''N'')
           | Some (n, atomtype) \<Rightarrow>
               Inr (steplinenum,
                    \<lparr>attr_N = n, attr_atomtype = atomtype, attr_id_idx = id_idx st,
                     attr_tidx = tidx st, attr_xidx = xidx st, attr_yidx = yidx st,
                     attr_zidx = zidx st\<rparr>))))"

definition readNfunc_bond :: "string list \<Rightarrow> pyerror + (nat \<times> header)" where
  "readNfunc_bond f = readN readN_bond_line f"

definition readNfunc_dump :: "string list \<Rightarrow> pyerror + (nat \<times> header)" where
  "readNfunc_dump f = readN readN_dump_line f"

section \<open>The dump-file reader: \<^verbatim>\<open>_DetectLAMMPSdump._readstepfunc\<close>\<close>

text \<open>
  The state of the loop over the lines of a timestep (lines 215 to 233): the atoms read so
  far with their id (\<^verbatim>\<open>step_atoms\<close>), the box lengths (\<^verbatim>\<open>boxsize\<close>), the variable
  \<^verbatim>\<open>linecontent\<close> and the variable \<^verbatim>\<open>timestep\<close>, each \<open>None\<close> while unbound.
\<close>

record dumpstep =
  atoms_of :: "(int \<times> atom) list"
  box_of :: "pyfloat list"
  section_of :: "LineType option"
  timestep_of :: "(nat \<times> int) option"

text \<open>Reading an attribute that the header scan has not set raises \<^verbatim>\<open>AttributeError\<close>.\<close>

definition attribute :: "string \<Rightarrow> int option \<Rightarrow> pyerror + int" where
  "attribute name v = (case v of None \<Rightarrow> Inl (AttributeError name) | Some i \<Rightarrow> Inr i)"

text \<open>The field \<^verbatim>\<open>s[self.idx]\<close> of an atom line.\<close>

definition field :: "string list \<Rightarrow> string \<Rightarrow> int option \<Rightarrow> pyerror + string" where
  "field s name v = bindE (attribute name v) (\<lambda>i. getitem s i)"

text \<open>Lines 223 to 228: the id and the atom of an atom line.\<close>

definition atom_of_line ::
  "externals \<Rightarrow> string list \<Rightarrow> header \<Rightarrow> string list \<Rightarrow> pyerror + (int \<times> atom)" where
  "atom_of_line ext atomname h s =
     bindE (field s ''id_idx'' (attr_id_idx h)) (\<lambda>fi.
     bindE (py_int fi) (\<lambda>i.
     bindE (field s ''tidx'' (attr_tidx h)) (\<lambda>ft.
     bindE (py_int ft) (\<lambda>t.
     bindE (getitem atomname (t - 1)) (\<lambda>name.
     bindE (field s ''xidx'' (attr_xidx h)) (\<lambda>fx.
     bindE (py_float ext fx) (\<lambda>x.
     bindE (field s ''yidx'' (attr_yidx h)) (\<lambda>fy.
     bindE (py_float ext fy) (\<lambda>y.
     bindE (field s ''zidx'' (attr_zidx h)) (\<lambda>fz.
     bindE (py_float ext fz) (\<lambda>z.
       Inr (i, \<lparr>symbol = name, position = (x, y, z)\<rparr>))))))))))))"

text \<open>The body of the loop, lines 218 to 233.\<close>

definition readstep_dump_line ::
  "externals \<Rightarrow> string list \<Rightarrow> header \<Rightarrow> nat \<Rightarrow> dumpstep \<Rightarrow> string \<Rightarrow> pyerror + dumpstep" where
  "readstep_dump_line ext atomname h step st line =
     (if line = [] then Inr st
      else if startswith line ''ITEM:'' then Inr (st\<lparr>section_of := Some (linecontent_of line)\<rparr>)
      else
        (case section_of st of
           None \<Rightarrow> Inl (UnboundLocalError ''linecontent'')
         | Some ATOMS \<Rightarrow>
             bindE (atom_of_line ext atomname h (split line)) (\<lambda>a.
               Inr (st\<lparr>atoms_of := atoms_of st @ [a]\<rparr>))
         | Some TIMESTEP \<Rightarrow>
             bindE (getitem (split line) 0) (\<lambda>f.
             bindE (py_int f) (\<lambda>t. Inr (st\<lparr>timestep_of := Some (step, t)\<rparr>)))
         | Some BOX \<Rightarrow>
             bindE (getitem (split line) 1) (\<lambda>f1.
             bindE (py_float ext f1) (\<lambda>hi.
             bindE (getitem (split line) 0) (\<lambda>f0.
             bindE (py_float ext f0) (\<lambda>lo.
               Inr (st\<lparr>box_of := box_of st @ [float_sub ext hi lo]\<rparr>)))))
         | Some _ \<Rightarrow> Inr st))"

text \<open>
  Line 234: the atoms sorted by their id, without the ids. \<^verbatim>\<open>sorted\<close> is stable, as
  \<open>sort_key\<close> is; unpacking the transposed list fails when there is no atom.
\<close>

definition sorted_atoms :: "(int \<times> atom) list \<Rightarrow> pyerror + atom list" where
  "sorted_atoms atoms =
     (if atoms = [] then Inl (ValueError ''not enough values to unpack'')
      else Inr (map snd (sort_key fst atoms)))"

text \<open>Lines 213 to 238, for the atom names and the periodic flag of the configuration.\<close>

definition readstepfunc_dump ::
  "externals \<Rightarrow> string list \<Rightarrow> bool \<Rightarrow> header \<Rightarrow> nat \<times> string list
     \<Rightarrow> pyerror + (string list \<times> nat \<times> int)" where
  "readstepfunc_dump ext atomname pbc h item =
     (case item of (step, lines) \<Rightarrow>
        bindE (foldE (readstep_dump_line ext atomname h step)
                 \<lparr>atoms_of = [], box_of = [], section_of = None, timestep_of = None\<rparr> lines)
          (\<lambda>st.
        bindE (sorted_atoms (atoms_of st)) (\<lambda>atoms.
        bindE (getbondfromcrd ext pbc atoms (box_of st)) (\<lambda>(bonds, levels).
        bindE (connectmolecule ext (map Some bonds) (map Some levels)) (\<lambda>molecules.
          (case timestep_of st of
             None \<Rightarrow> Inl (UnboundLocalError ''timestep'')
           | Some t \<Rightarrow> Inr (molecules, t)))))))"

section \<open>The run over the timesteps: \<^verbatim>\<open>_Detect._readinputfile\<close>\<close>

text \<open>
  Modelled from the spec: the function \<^verbatim>\<open>run_mp\<close> of the module \<^verbatim>\<open>utils\<close>, which
  \<^verbatim>\<open>_readinputfile\<close> calls and which is not among the sources. The specification (sections
  4.1, 4.5, 5 and 6) describes it: the lines of the file are cut into contiguous blocks of
  \<open>nlines\<close> lines, one per timestep; with a sampling interval K only every K-th block is
  processed, and the others are never parsed; the processing function is run on the
  blocks by a pool of workers, which may finish in any order; the results are put back
  into the order of the blocks before they are merged; an error in a worker makes the run
  fail.

  \<open>blocks\<close> cuts the lines; \<open>sampled\<close> gives the positions of the blocks that are processed;
  a work item is the number of the step in the sequence of processed steps together with
  its lines.
\<close>

function blocks :: "nat \<Rightarrow> 'a list \<Rightarrow> 'a list list" where
  "blocks nlines xs =
     (if nlines = 0 \<or> xs = [] then [] else take nlines xs # blocks nlines (drop nlines xs))"
  by pat_completeness auto
termination
  by (relation "measure (\<lambda>(nlines, xs). length xs)") auto

declare blocks.simps [simp del]

definition sampled :: "nat \<Rightarrow> nat \<Rightarrow> nat list" where
  "sampled K n = filter (\<lambda>i. i mod K = 0) [0..<n]"

definition work_items :: "nat \<Rightarrow> nat \<Rightarrow> string list \<Rightarrow> (nat \<times> string list) list" where
  "work_items nlines K f =
     (let bs = blocks nlines f; ps = sampled K (length bs)
      in zip [0..<length ps] (map (\<lambda>p. bs ! p) ps))"

text \<open>
  The pool: \<open>completion\<close> is the order in which the workers finish, a list of item numbers.
  Each result arrives with the number of its item, and the results are sorted by that
  number.
\<close>

definition run_mp :: "('a \<Rightarrow> 'b) \<Rightarrow> 'a list \<Rightarrow> nat list \<Rightarrow> 'b list" where
  "run_mp func items completion =
     map snd (sort_key fst (map (\<lambda>i. (i, func (items ! i))) completion))"

text \<open>
  \<^verbatim>\<open>d = defaultdict(list)\<close> and \<^verbatim>\<open>timestep = {}\<close>: dictionaries, in the order in which
  their keys were inserted.
\<close>

fun dict_append :: "('k \<times> 'v list) list \<Rightarrow> 'k \<Rightarrow> 'v \<Rightarrow> ('k \<times> 'v list) list" where
  "dict_append [] k v = [(k, [v])]"
| "dict_append ((k', vs) # rest) k v =
     (if k' = k then (k', vs @ [v]) # rest else (k', vs) # dict_append rest k v)"

fun dict_set :: "('k \<times> 'v) list \<Rightarrow> 'k \<Rightarrow> 'v \<Rightarrow> ('k \<times> 'v) list" where
  "dict_set [] k v = [(k, v)]"
| "dict_set ((k', v') # rest) k v =
     (if k' = k then (k', v) # rest else (k', v') # dict_set rest k v)"

text \<open>
  Lines 83 to 86: the merge of one result into the two dictionaries; a result that is an
  exception ends the run with it.
\<close>

record timeline =
  occurrences :: "(string \<times> nat list) list"
  timesteps :: "(nat \<times> int) list"

definition merge_result ::
  "timeline \<Rightarrow> pyerror + (string list \<times> nat \<times> int) \<Rightarrow> pyerror + timeline" where
  "merge_result acc r =
     (case r of
        Inl e \<Rightarrow> Inl e
      | Inr (molecules, (step, thetimestep)) \<Rightarrow>
          Inr \<lparr>occurrences = fold (\<lambda>molecule d. dict_append d molecule step) molecules
                               (occurrences acc),
               timesteps = dict_set (timesteps acc) step thetimestep\<rparr>)"

text \<open>
  Lines 80 to 92 for a step function \<open>func\<close>. The pool is given \<open>traced func\<close>, which
  returns the result of \<open>func\<close> together with the item it was called on, so that what the
  pool returns tells which calls of \<open>func\<close> were made: \<open>dispatched\<close> are the items of these
  calls, and \<open>outcome\<close> is the two dictionaries after the merge of their results. The
  compression of the occurrence lists and the temporary file (lines 88 to 90) are left
  to \<^verbatim>\<open>utils\<close>.
\<close>

definition traced :: "('a \<Rightarrow> 'b) \<Rightarrow> 'a \<Rightarrow> 'a \<times> 'b" where
  "traced func item = (item, func item)"

record detection =
  dispatched :: "(nat \<times> string list) list"
  outcome :: "pyerror + timeline"

definition collect ::
  "(nat \<times> string list \<Rightarrow> pyerror + (string list \<times> nat \<times> int)) \<Rightarrow> nat \<Rightarrow> nat \<Rightarrow> string list
     \<Rightarrow> nat list \<Rightarrow> detection" where
  "collect func nlines K f completion =
     (let calls = run_mp (traced func) (work_items nlines K f) completion
      in \<lparr>dispatched = map fst calls,
          outcome = foldE merge_result \<lparr>occurrences = [], timesteps = []\<rparr> (map snd calls)\<rparr>)"

text \<open>
  The configuration: the file format and the attributes \<^verbatim>\<open>atomname\<close>, \<^verbatim>\<open>stepinterval\<close>
  and \<^verbatim>\<open>pbc\<close> of the object. Lines 75 to 92: the header scan, then the run
  over the timesteps with the step function of the file format.
\<close>

datatype InputFileType = LAMMPSBOND | LAMMPSDUMP

record config =
  inputtype :: InputFileType
  attr_atomname :: "string list"
  attr_stepinterval :: nat
  attr_pbc :: bool

definition readNfunc :: "config \<Rightarrow> string list \<Rightarrow> pyerror + (nat \<times> header)" where
  "readNfunc cfg f =
     (case inputtype cfg of LAMMPSBOND \<Rightarrow> readNfunc_bond f | LAMMPSDUMP \<Rightarrow> readNfunc_dump f)"

definition readstepfunc ::
  "externals \<Rightarrow> config \<Rightarrow> header \<Rightarrow> nat \<times> string list \<Rightarrow> pyerror + (string list \<times> nat \<times> int)" where
  "readstepfunc ext cfg h item =
     (case inputtype cfg of
        LAMMPSBOND \<Rightarrow> readstepfunc_bond ext (attr_N h) item
      | LAMMPSDUMP \<Rightarrow> readstepfunc_dump ext (attr_atomname cfg) (attr_pbc cfg) h item)"

definition readinputfile :: "externals \<Rightarrow> config \<Rightarrow> string list \<Rightarrow> nat list \<Rightarrow> detection" where
  "readinputfile ext cfg f completion =
     (case readNfunc cfg f of
        Inl e \<Rightarrow> \<lparr>dispatched = [], outcome = Inl e\<rparr>
      | Inr (steplinenum, h) \<Rightarrow>
          collect (readstepfunc ext cfg h) steplinenum (attr_stepinterval cfg) f completion)"

subsection \<open>Examples of input files\<close>

text \<open>
  One timestep of a dump file with the two atoms of the example above, written with the
  hydrogen first; the lines of its header up to the column line; a column line without the
  column \<open>type\<close>; and the configurations that go with the files.
\<close>

definition example_dump_head :: "string list" where
  "example_dump_head =
     [''ITEM: TIMESTEP'', ''0'', ''ITEM: NUMBER OF ATOMS'', ''2'',
      ''ITEM: BOX BOUNDS pp pp pp'', ''0 10'', ''0 10'', ''0 10'']"

definition example_dump_step :: "string list" where
  "example_dump_step =
     example_dump_head @ [''ITEM: ATOMS id type x y z'', ''2 2 9.5 5 5'', ''1 1 0.5 5 5'']"

definition example_dump_config :: config where
  "example_dump_config =
     \<lparr>inputtype = LAMMPSDUMP, attr_atomname = [''O'', ''H''], attr_stepinterval = 1, attr_pbc = True\<rparr>"

definition example_bond_config :: config where
  "example_bond_config =
     \<lparr>inputtype = LAMMPSBOND, attr_atomname = [''O'', ''H''], attr_stepinterval = 1, attr_pbc = False\<rparr>"

text \<open>A bond file of four timesteps, and the header that the scan of it leaves.\<close>

definition example_bond_file :: "string list" where
  "example_bond_file =
     example_bond_lines @ example_bond_lines @ example_bond_lines @ example_bond_lines"

definition example_bond_header :: header where
  "example_bond_header =
     \<lparr>attr_N = 2, attr_atomtype = [0, 0], attr_id_idx = None, attr_tidx = None,
      attr_xidx = None, attr_yidx = None, attr_zidx = None\<rparr>"

text \<open>
  A bond file of four timesteps that differ in their timestep lines, so that the
  dictionary of the timesteps tells which of them were read.
\<close>

definition example_bond_step :: "string \<Rightarrow> string list" where
  "example_bond_step t = (''# Timestep '' @ t) # tl example_bond_lines"

definition example_bond_run :: "string list" where
  "example_bond_run =
     example_bond_step ''0'' @ example_bond_step ''100'' @ example_bond_step ''200''
       @ example_bond_step ''300''"

text \<open>
  The reader of decimal numbers and the subtraction for the numbers of the dump example,
  and the state of the step loop after its lines.
\<close>

definition example_dump_float :: "string \<Rightarrow> pyfloat option" where
  "example_dump_float s =
     (if s = ''0'' then Some (Finite 0)
      else if s = ''0.5'' then Some (Finite (1 / 2))
      else if s = ''5'' then Some (Finite 5)
      else if s = ''9.5'' then Some (Finite (19 / 2))
      else if s = ''10'' then Some (Finite 10)
      else None)"

fun example_sub :: "pyfloat \<Rightarrow> pyfloat \<Rightarrow> pyfloat" where
  "example_sub (Finite a) (Finite b) = Finite (a - b)"
| "example_sub x y = NaN"

definition example_dump_externals :: externals where
  "example_dump_externals =
     example_externals\<lparr>float_of := example_dump_float, float_sub := example_sub\<rparr>"

definition example_dump_state :: dumpstep where
  "example_dump_state =
     \<lparr>atoms_of =
        [(2, \<lparr>symbol = ''H'', position = (Finite (19 / 2), Finite 5, Finite 5)\<rparr>),
         (1, \<lparr>symbol = ''O'', position = (Finite (1 / 2), Finite 5, Finite 5)\<rparr>)],
      box_of = [Finite 10, Finite 10, Finite 10],
      section_of = Some ATOMS,
      timestep_of = Some (0, 0)\<rparr>"

definition example_dump_header :: header where
  "example_dump_header =
     \<lparr>attr_N = 2, attr_atomtype = [0, 1], attr_id_idx = Some 0, attr_tidx = Some 1,
      attr_xidx = Some 2, attr_yidx = Some 3, attr_zidx = Some 4\<rparr>"

section \<open>Properties of the bond scan\<close>

lemma length_append_at [simp]: "length (append_at xs k v) = length xs"
  by (simp add: append_at_def)

lemma nth_append_at:
  "k < length xs \<Longrightarrow> append_at xs k v ! i = (if i = k then xs ! i @ [v] else xs ! i)"
  by (simp add: append_at_def nth_list_update)

lemma bindE_Inr_iff: "bindE m f = Inr y \<longleftrightarrow> (\<exists>x. m = Inr x \<and> f x = Inr y)"
  by (cases m) (simp_all add: bindE_def)

lemma py_index_Inr: "py_index n i = Inr k \<Longrightarrow> k < n"
  by (auto simp: py_index_def split: if_splits)

lemma py_index_nonneg: "py_index n i = Inr k \<Longrightarrow> 0 \<le> i \<Longrightarrow> i = int k"
  by (auto simp: py_index_def split: if_splits)

lemma bond_record_cases:
  assumes "bond_record n rn st s = Inr st'"
    and "length (bondlevel st) = length (bond st)"
  shows "\<exists>i1 i2. py_int (s ! 1) = Inr i1 \<and> py_int (s ! 2) = Inr i2 \<and>
      ((i1 - 1 \<ge> int n \<and> i2 - 1 \<ge> int n \<and> st' = st) \<or>
       (\<not> (i1 - 1 \<ge> int n \<and> i2 - 1 \<ge> int n) \<and>
        (\<exists>a b k1 k2 lv. remap_images n rn (i1 - 1) (i2 - 1) = Inr (a, b) \<and>
           py_index (length (bond st)) a = Inr k1 \<and> py_index (length (bond st)) b = Inr k2 \<and>
           order_of (s ! 3) lv \<and>
           st' = st\<lparr>bond := append_at (append_at (bond st) k1 b) k2 a,
                    bondlevel := append_at (append_at (bondlevel st) k1 lv) k2 lv\<rparr>)))"
  using assms
  by (simp add: bond_record_def bindE_Inr_iff order_of_def split: if_splits prod.splits) auto

lemma remap_images_nonneg:
  "remap_images n rn s1 s2 = Inr (a, b) \<Longrightarrow> 0 \<le> s1 \<Longrightarrow> 0 \<le> s2 \<Longrightarrow> 0 \<le> a \<and> 0 \<le> b"
  by (auto simp: remap_images_def image_index_def bindE_Inr_iff split: if_splits option.splits)

lemma bonds_of_append_at:
  assumes "length L = length B" "k < length B" "length (L ! k) = length (B ! k)"
  shows "bonds_of (append_at B k x) (append_at L k lv) a =
         (if a = k then bonds_of B L a @ [(x, lv)] else bonds_of B L a)"
  using assms by (simp add: bonds_of_def nth_append_at)

lemma symmetric_graph_append:
  assumes sym: "symmetric_graph B L" and k1: "k1 < length B" and k2: "k2 < length B"
  shows "symmetric_graph (append_at (append_at B k1 (int k2)) k2 (int k1))
                         (append_at (append_at L k1 lv) k2 lv)"
proof -
  let ?B1 = "append_at B k1 (int k2)" and ?L1 = "append_at L k1 lv"
  let ?B2 = "append_at ?B1 k2 (int k1)" and ?L2 = "append_at ?L1 k2 lv"
  from sym have len: "length L = length B"
    and lens: "\<And>a. a < length B \<Longrightarrow> length (L ! a) = length (B ! a)"
    and edges: "\<And>a b l. a < length B \<Longrightarrow> (b, l) \<in> set (bonds_of B L a) \<Longrightarrow>
        0 \<le> b \<and> b < int (length B) \<and> (int a, l) \<in> set (bonds_of B L (nat b))"
    by (auto simp: symmetric_graph_def)
  have lens1: "length (?L1 ! a) = length (?B1 ! a)" if "a < length B" for a
    using that k1 len lens by (simp add: nth_append_at)
  have lens2: "length (?L2 ! a) = length (?B2 ! a)" if "a < length B" for a
    using that k2 len lens1 by (simp add: nth_append_at)
  have b1: "bonds_of ?B1 ?L1 a = (if a = k1 then bonds_of B L a @ [(int k2, lv)] else bonds_of B L a)" for a
    using len k1 lens by (simp add: bonds_of_append_at)
  have b2: "bonds_of ?B2 ?L2 a = (if a = k2 then bonds_of ?B1 ?L1 a @ [(int k1, lv)] else bonds_of ?B1 ?L1 a)" for a
    using len k2 lens1 by (simp add: bonds_of_append_at)
  have S: "set (bonds_of ?B2 ?L2 a) = set (bonds_of B L a) \<union> (if a = k1 then {(int k2, lv)} else {})
       \<union> (if a = k2 then {(int k1, lv)} else {})" for a
    by (auto simp: b1 b2)
  show ?thesis
    unfolding symmetric_graph_def
  proof (intro conjI allI impI)
    show "length ?L2 = length ?B2" using len by simp
  next
    fix a assume "a < length ?B2"
    then show "length (?L2 ! a) = length (?B2 ! a)" using lens2 by simp
  next
    fix a assume a: "a < length ?B2"
    show "\<forall>(b, order) \<in> set (bonds_of ?B2 ?L2 a).
            0 \<le> b \<and> b < int (length ?B2) \<and> (int a, order) \<in> set (bonds_of ?B2 ?L2 (nat b))"
    proof (clarify)
      fix b l assume "(b, l) \<in> set (bonds_of ?B2 ?L2 a)"
      then consider "(b, l) \<in> set (bonds_of B L a)" | "a = k1" "b = int k2" "l = lv"
        | "a = k2" "b = int k1" "l = lv"
        unfolding S by (auto split: if_splits)
      then show "0 \<le> b \<and> b < int (length ?B2) \<and> (int a, l) \<in> set (bonds_of ?B2 ?L2 (nat b))"
      proof cases
        case 1
        with edges[of a b l] a show ?thesis unfolding S by simp
      next
        case 2
        then show ?thesis using k1 k2 unfolding S by simp
      next
        case 3
        then show ?thesis using k1 k2 unfolding S by simp
      qed
    qed
  qed
qed

lemma bond_record_symmetric:
  assumes "bond_record n rn st s = Inr st'"
    and "symmetric_graph (bond st) (bondlevel st)"
    and "case int_literal (s ! 1) of None \<Rightarrow> True | Some v \<Rightarrow> 1 \<le> v"
    and "case int_literal (s ! 2) of None \<Rightarrow> True | Some v \<Rightarrow> 1 \<le> v"
  shows "symmetric_graph (bond st') (bondlevel st') \<and> linecontent st' = linecontent st"
proof -
  from assms(2) have len: "length (bondlevel st) = length (bond st)"
    by (simp add: symmetric_graph_def)
  from bond_record_cases[OF assms(1) len] obtain i1 i2 where
    i: "py_int (s ! 1) = Inr i1" "py_int (s ! 2) = Inr i2" and
    c: "st' = st \<or> (\<exists>a b k1 k2 lv. remap_images n rn (i1 - 1) (i2 - 1) = Inr (a, b) \<and>
           py_index (length (bond st)) a = Inr k1 \<and> py_index (length (bond st)) b = Inr k2 \<and>
           st' = st\<lparr>bond := append_at (append_at (bond st) k1 b) k2 a,
                    bondlevel := append_at (append_at (bondlevel st) k1 lv) k2 lv\<rparr>)"
    by blast
  from i assms(3,4) have pos: "0 \<le> i1 - 1" "0 \<le> i2 - 1"
    by (auto simp: py_int_def split: option.splits)
  from c show ?thesis
  proof
    assume "st' = st" with assms(2) show ?thesis by simp
  next
    assume "\<exists>a b k1 k2 lv. remap_images n rn (i1 - 1) (i2 - 1) = Inr (a, b) \<and>
           py_index (length (bond st)) a = Inr k1 \<and> py_index (length (bond st)) b = Inr k2 \<and>
           st' = st\<lparr>bond := append_at (append_at (bond st) k1 b) k2 a,
                    bondlevel := append_at (append_at (bondlevel st) k1 lv) k2 lv\<rparr>"
    then obtain a b k1 k2 lv where r: "remap_images n rn (i1 - 1) (i2 - 1) = Inr (a, b)"
      and k: "py_index (length (bond st)) a = Inr k1" "py_index (length (bond st)) b = Inr k2"
      and st': "st' = st\<lparr>bond := append_at (append_at (bond st) k1 b) k2 a,
                    bondlevel := append_at (append_at (bondlevel st) k1 lv) k2 lv\<rparr>"
      by blast
    from remap_images_nonneg[OF r pos] have "0 \<le> a" "0 \<le> b" by simp_all
    with k have ab: "a = int k1" "b = int k2" by (simp_all add: py_index_nonneg)
    from k have "k1 < length (bond st)" "k2 < length (bond st)" by (simp_all add: py_index_Inr)
    from symmetric_graph_append[OF assms(2) this, of lv] show ?thesis
      by (simp add: st' ab)
  qed
qed

lemma bond_line_symmetric:
  assumes "bond_line n rn st line = Inr st'"
    and "symmetric_graph (bond st) (bondlevel st)"
    and "numbered_from_one (linecontent st) (line # lines)"
  shows "symmetric_graph (bond st') (bondlevel st') \<and> numbered_from_one (linecontent st') lines"
proof (cases "startswith line ''@<TRIPOS>BOND''")
  case True
  with assms show ?thesis by (auto simp: bond_line_def)
next
  case False
  show ?thesis
  proof (cases "linecontent st = 0 \<and> length (split line) > 3")
    case True
    with False assms(1) have r: "bond_record n rn st (split line) = Inr st'"
      by (simp add: bond_line_def)
    from True False assms(3) have
      "case int_literal (split line ! 1) of None \<Rightarrow> True | Some v \<Rightarrow> 1 \<le> v"
      "case int_literal (split line ! 2) of None \<Rightarrow> True | Some v \<Rightarrow> 1 \<le> v"
      by (simp_all add: record_from_one_def Let_def)
    from bond_record_symmetric[OF r assms(2) this] False assms(3) show ?thesis by simp
  next
    case nr: False
    with False assms(1) have "st' = st" by (auto simp: bond_line_def Let_def split: if_splits)
    with False assms(2,3) show ?thesis by simp
  qed
qed

lemma bond_lines_symmetric:
  "bond_lines n rn st lines = Inr st' \<Longrightarrow> symmetric_graph (bond st) (bondlevel st) \<Longrightarrow>
   numbered_from_one (linecontent st) lines \<Longrightarrow> symmetric_graph (bond st') (bondlevel st')"
proof (induction lines arbitrary: st)
  case Nil
  then show ?case by simp
next
  case (Cons line lines)
  from Cons.prems(1) obtain st1 where s1: "bond_line n rn st line = Inr st1"
    and rest: "bond_lines n rn st1 lines = Inr st'"
    by (auto split: sum.splits)
  from bond_line_symmetric[OF s1 Cons.prems(2,3)] Cons.IH[OF rest] show ?case by simp
qed

lemma symmetric_graph_init: "symmetric_graph (replicate n []) (replicate n [])"
  by (simp add: symmetric_graph_def bonds_of_def)

lemma scan_mol2_symmetric:
  assumes "scan_mol2 n rn text = Inr (B, L)"
    and "numbered_from_one (- 1) (split_sep newline text)"
  shows "symmetric_graph B L"
proof -
  from assms(1) obtain st' where
    "bond_lines n rn \<lparr>linecontent = - 1, bond = replicate n [], bondlevel = replicate n []\<rparr>
       (split_sep newline text) = Inr st'" and "B = bond st'" "L = bondlevel st'"
    by (auto simp: scan_mol2_def bindE_Inr_iff)
  with bond_lines_symmetric[OF this(1)] assms(2) show ?thesis
    by (simp add: symmetric_graph_init)
qed

lemma bond_record_length:
  "bond_record n rn st s = Inr st' \<Longrightarrow> length (bond st') = length (bond st)"
  by (simp add: bond_record_def bindE_Inr_iff split: if_splits prod.splits) auto

lemma bond_line_length:
  "bond_line n rn st line = Inr st' \<Longrightarrow> length (bond st') = length (bond st)"
  by (auto simp: bond_line_def Let_def bond_record_length split: if_splits)

lemma bond_lines_length:
  "bond_lines n rn st lines = Inr st' \<Longrightarrow> length (bond st') = length (bond st)"
  by (induction lines arbitrary: st) (auto split: sum.splits dest: bond_line_length)

lemma scan_mol2_length:
  "scan_mol2 n rn text = Inr (B, L) \<Longrightarrow> length B = n"
  by (auto simp: scan_mol2_def bindE_Inr_iff dest: bond_lines_length)


subsection \<open>Symmetry of the bond graph\<close>

text \<open>
  Claim C7. The bond graph that \<open>getbondfromcrd\<close> returns is symmetric: both tables have one
  entry per real atom, the neighbour list and the bond-order list of every atom have the
  same length, and a bond recorded at \<open>a\<close> towards \<open>b\<close> with some order is recorded at \<open>b\<close>
  towards \<open>a\<close> with the same order. The bond records of the mol2 text number the atoms
  from 1, as Open Babel writes them.
\<close>

theorem getbondfromcrd_symmetric:
  assumes "getbondfromcrd ext pbc step_atoms cell = Inr (B, L)"
    and "numbered_from_one (- 1) (split_sep newline (mol2string ext pbc step_atoms cell))"
  shows "length B = length step_atoms \<and> length L = length step_atoms \<and>
         (\<forall>a < length step_atoms.
            length (L ! a) = length (B ! a) \<and>
            (\<forall>b order. (b, order) \<in> set (bonds_of B L a) \<longrightarrow>
               0 \<le> b \<and> b < int (length step_atoms) \<and>
               (int a, order) \<in> set (bonds_of B L (nat b))))"
proof -
  from assms(1) have scan: "scan_mol2 (length step_atoms)
      (if pbc then Some (realnumber ext step_atoms cell) else None)
      (mol2string ext pbc step_atoms cell) = Inr (B, L)"
    by (simp add: getbondfromcrd_def)
  from scan_mol2_symmetric[OF scan assms(2)] have sym: "symmetric_graph B L" .
  from scan_mol2_length[OF scan] have len: "length B = length step_atoms" .
  from sym len show ?thesis
    unfolding symmetric_graph_def by auto
qed

theorem getbondfromcrd_symmetric_witness:
  "getbondfromcrd example_externals True example_atoms [Finite 10, Finite 10, Finite 10]
     = Inr ([[1], [0]], [[1], [1]]) \<and>
   numbered_from_one (- 1) (split_sep newline
     (mol2string example_externals True example_atoms [Finite 10, Finite 10, Finite 10])) \<and>
   (1, 1) \<in> set (bonds_of [[1], [0]] [[1], [1]] 0) \<and>
   (0, 1) \<in> set (bonds_of [[1], [0]] [[1], [1]] 1)"
proof -
  have run: "getbondfromcrd example_externals True example_atoms [Finite 10, Finite 10, Finite 10]
     = Inr ([[1], [0]], [[1], [1]])"
    by code_simp
  have ids: "numbered_from_one (- 1) (split_sep newline
     (mol2string example_externals True example_atoms [Finite 10, Finite 10, Finite 10]))"
    by code_simp
  from getbondfromcrd_symmetric[OF run ids] run ids show ?thesis
    by (simp add: bonds_of_def)
qed

subsection \<open>The bonds recorded by the scan\<close>

text \<open>
  The loop over the lines of the mol2 text keeps the tables aligned, and what it appends to
  the lists of an atom are the entries of the recorded bonds of the lines it has read, in
  their order. So the tables that the scan returns are determined by the bond records of
  the text: the lists of atom \<open>a\<close> hold the entries of the recorded bonds at \<open>a\<close> and
  nothing else.
\<close>

lemma aligned_iff:
  "aligned n st \<longleftrightarrow>
     length (bond st) = n \<and> length (bondlevel st) = n \<and>
     (\<forall>a < n. length (bondlevel st ! a) = length (bond st ! a))"
  by (auto simp: aligned_def list_all_iff)

lemma the_int_py_int: "py_int s = Inr v \<Longrightarrow> the_int s = v"
  by (auto simp: py_int_def the_int_def split: option.splits)

lemma order_value_of: "order_of t lv \<Longrightarrow> lv = order_value t"
  by (auto simp: order_of_def order_value_def dest: the_int_py_int)

lemma remap_images_real:
  assumes "remap_images n rn e1 e2 = Inr (a, b)" and "\<not> (int n \<le> e1 \<and> int n \<le> e2)"
  shows "a = real_index n (case rn of None \<Rightarrow> [] | Some r \<Rightarrow> r) e1 \<and>
         b = real_index n (case rn of None \<Rightarrow> [] | Some r \<Rightarrow> r) e2"
  using assms
  by (auto simp: remap_images_def image_index_def getitem_def py_index_def real_index_def
      bindE_Inr_iff split: if_splits option.splits)

lemma entries_append: "entries a (xs @ ys) = entries a xs @ entries a ys"
  by (simp add: entries_def)

lemma entries_single:
  "entries a [(x, y, lv)]
     = (if x = int a then [(y, lv)] else []) @ (if y = int a then [(x, lv)] else [])"
  by (simp add: entries_def)

lemma recorded_Cons: "recorded n rn (s # rs) = recorded n rn [s] @ recorded n rn rs"
  by (simp add: recorded_def)

lemma bond_record_recorded:
  assumes "bond_record n rn st s = Inr st'"
    and "aligned n st"
    and "case int_literal (s ! 1) of None \<Rightarrow> True | Some v \<Rightarrow> 1 \<le> v"
    and "case int_literal (s ! 2) of None \<Rightarrow> True | Some v \<Rightarrow> 1 \<le> v"
  shows "aligned n st' \<and> linecontent st' = linecontent st \<and>
     (\<forall>a < n. bonds_of (bond st') (bondlevel st') a
        = bonds_of (bond st) (bondlevel st) a
            @ entries a (recorded n (case rn of None \<Rightarrow> [] | Some r \<Rightarrow> r) [s])) \<and>
     (\<forall>(x, y, lv) \<in> set (recorded n (case rn of None \<Rightarrow> [] | Some r \<Rightarrow> r) [s]).
        0 \<le> x \<and> x < int n \<and> 0 \<le> y \<and> y < int n) \<and>
     (\<not> both_images n s \<longrightarrow> order_of (s ! 3) (order_value (s ! 3)))"
proof -
  let ?R = "case rn of None \<Rightarrow> [] | Some r \<Rightarrow> r"
  from assms(2) have len: "length (bond st) = n" "length (bondlevel st) = n"
    and lens: "\<And>a. a < n \<Longrightarrow> length (bondlevel st ! a) = length (bond st ! a)"
    by (simp_all add: aligned_iff)
  from len have len': "length (bondlevel st) = length (bond st)" by simp
  from bond_record_cases[OF assms(1) len'] obtain i1 i2 where
    i: "py_int (s ! 1) = Inr i1" "py_int (s ! 2) = Inr i2" and
    c: "(i1 - 1 \<ge> int n \<and> i2 - 1 \<ge> int n \<and> st' = st) \<or>
       (\<not> (i1 - 1 \<ge> int n \<and> i2 - 1 \<ge> int n) \<and>
        (\<exists>a b k1 k2 lv. remap_images n rn (i1 - 1) (i2 - 1) = Inr (a, b) \<and>
           py_index (length (bond st)) a = Inr k1 \<and> py_index (length (bond st)) b = Inr k2 \<and>
           order_of (s ! 3) lv \<and>
           st' = st\<lparr>bond := append_at (append_at (bond st) k1 b) k2 a,
                    bondlevel := append_at (append_at (bondlevel st) k1 lv) k2 lv\<rparr>))"
    by blast
  from i have ends: "record_ends s = (i1 - 1, i2 - 1)"
    by (simp add: record_ends_def the_int_py_int)
  from i assms(3,4) have pos: "0 \<le> i1 - 1" "0 \<le> i2 - 1"
    by (auto simp: py_int_def split: option.splits)
  from c show ?thesis
  proof
    assume d: "i1 - 1 \<ge> int n \<and> i2 - 1 \<ge> int n \<and> st' = st"
    with ends have "both_images n s" by (simp add: both_images_def)
    then have "recorded n ?R [s] = []" by (simp add: recorded_def)
    with d assms(2) \<open>both_images n s\<close> show ?thesis by (simp add: entries_def)
  next
    assume "\<not> (i1 - 1 \<ge> int n \<and> i2 - 1 \<ge> int n) \<and>
        (\<exists>a b k1 k2 lv. remap_images n rn (i1 - 1) (i2 - 1) = Inr (a, b) \<and>
           py_index (length (bond st)) a = Inr k1 \<and> py_index (length (bond st)) b = Inr k2 \<and>
           order_of (s ! 3) lv \<and>
           st' = st\<lparr>bond := append_at (append_at (bond st) k1 b) k2 a,
                    bondlevel := append_at (append_at (bondlevel st) k1 lv) k2 lv\<rparr>)"
    then obtain a b k1 k2 lv where nb: "\<not> (i1 - 1 \<ge> int n \<and> i2 - 1 \<ge> int n)"
      and r: "remap_images n rn (i1 - 1) (i2 - 1) = Inr (a, b)"
      and k: "py_index (length (bond st)) a = Inr k1" "py_index (length (bond st)) b = Inr k2"
      and o: "order_of (s ! 3) lv"
      and st': "st' = st\<lparr>bond := append_at (append_at (bond st) k1 b) k2 a,
                    bondlevel := append_at (append_at (bondlevel st) k1 lv) k2 lv\<rparr>"
      by blast
    from remap_images_nonneg[OF r pos] have "0 \<le> a" "0 \<le> b" by simp_all
    with k have ab: "a = int k1" "b = int k2" by (simp_all add: py_index_nonneg)
    from k len have kn: "k1 < n" "k2 < n" using py_index_Inr by fastforce+
    from remap_images_real[OF r] nb have real: "a = real_index n ?R (i1 - 1)"
      "b = real_index n ?R (i2 - 1)" by simp_all
    from o have lv: "lv = order_value (s ! 3)" by (rule order_value_of)
    from nb ends have nboth: "\<not> both_images n s" by (simp add: both_images_def)
    with ends real lv have rec: "recorded n ?R [s] = [(a, b, lv)]"
      by (simp add: recorded_def)
    let ?B1 = "append_at (bond st) k1 b" and ?L1 = "append_at (bondlevel st) k1 lv"
    have lens1: "length (?L1 ! x) = length (?B1 ! x)" if "x < n" for x
      using that kn len lens by (simp add: nth_append_at)
    have lens2: "length (bondlevel st' ! x) = length (bond st' ! x)" if "x < n" for x
      using that kn len lens1 by (simp add: st' nth_append_at)
    have al: "aligned n st'"
      using len lens2 by (simp add: aligned_iff st')
    have b1: "bonds_of ?B1 ?L1 x
        = (if x = k1 then bonds_of (bond st) (bondlevel st) x @ [(b, lv)]
           else bonds_of (bond st) (bondlevel st) x)" for x
      using len kn lens by (simp add: bonds_of_append_at)
    have b2: "bonds_of (bond st') (bondlevel st') x
        = (if x = k2 then bonds_of ?B1 ?L1 x @ [(a, lv)] else bonds_of ?B1 ?L1 x)" for x
      using len kn lens1 by (simp add: st' bonds_of_append_at)
    have e: "bonds_of (bond st') (bondlevel st') x
        = bonds_of (bond st) (bondlevel st) x @ entries x (recorded n ?R [s])" for x
      by (simp only: b2 b1 rec entries_single) (auto simp: ab)
    from al e kn ab rec o lv show ?thesis by (simp add: st')
  qed
qed

lemma bond_lines_recorded:
  "bond_lines n rn st lines = Inr st' \<Longrightarrow> aligned n st \<Longrightarrow>
   numbered_from_one (linecontent st) lines \<Longrightarrow>
   aligned n st' \<and>
   (\<forall>a < n. bonds_of (bond st') (bondlevel st') a
      = bonds_of (bond st) (bondlevel st) a
          @ entries a (recorded n (case rn of None \<Rightarrow> [] | Some r \<Rightarrow> r)
              (records_from (linecontent st = 0) lines))) \<and>
   (\<forall>(x, y, lv) \<in> set (recorded n (case rn of None \<Rightarrow> [] | Some r \<Rightarrow> r)
                         (records_from (linecontent st = 0) lines)).
      0 \<le> x \<and> x < int n \<and> 0 \<le> y \<and> y < int n) \<and>
   (\<forall>s \<in> set (records_from (linecontent st = 0) lines).
      \<not> both_images n s \<longrightarrow> order_of (s ! 3) (order_value (s ! 3)))"
proof (induction lines arbitrary: st)
  case Nil
  then show ?case by (simp add: recorded_def entries_def)
next
  case (Cons line lines)
  let ?R = "case rn of None \<Rightarrow> [] | Some r \<Rightarrow> r"
  from Cons.prems(1) obtain st1 where s1: "bond_line n rn st line = Inr st1"
    and rest: "bond_lines n rn st1 lines = Inr st'"
    by (auto split: sum.splits)
  show ?case
  proof (cases "startswith line ''@<TRIPOS>BOND''")
    case True
    with s1 have st1: "st1 = st\<lparr>linecontent := 0\<rparr>" by (simp add: bond_line_def)
    with Cons.prems(2) have al: "aligned n st1" by (simp add: aligned_iff)
    from True Cons.prems(3) st1 have num: "numbered_from_one (linecontent st1) lines" by simp
    from Cons.IH[OF rest al num] True st1 show ?thesis by simp
  next
    case False
    show ?thesis
    proof (cases "linecontent st = 0 \<and> length (split line) > 3")
      case True
      with False s1 have r: "bond_record n rn st (split line) = Inr st1"
        by (simp add: bond_line_def)
      from True False Cons.prems(3) have
        "case int_literal (split line ! 1) of None \<Rightarrow> True | Some v \<Rightarrow> 1 \<le> v"
        "case int_literal (split line ! 2) of None \<Rightarrow> True | Some v \<Rightarrow> 1 \<le> v"
        by (simp_all add: record_from_one_def Let_def)
      from bond_record_recorded[OF r Cons.prems(2) this]
      have al: "aligned n st1" and lc: "linecontent st1 = linecontent st"
        and e1: "\<And>a. a < n \<Longrightarrow> bonds_of (bond st1) (bondlevel st1) a
            = bonds_of (bond st) (bondlevel st) a @ entries a (recorded n ?R [split line])"
        and r1: "\<forall>(x, y, lv) \<in> set (recorded n ?R [split line]).
            0 \<le> x \<and> x < int n \<and> 0 \<le> y \<and> y < int n"
        and o1: "\<not> both_images n (split line) \<longrightarrow>
            order_of (split line ! 3) (order_value (split line ! 3))"
        by simp_all
      from False Cons.prems(3) lc have num: "numbered_from_one (linecontent st1) lines" by simp
      have recs: "records_from (linecontent st = 0) (line # lines)
          = split line # records_from (linecontent st1 = 0) lines"
        using True False lc by simp
      from Cons.IH[OF rest al num]
      have al': "aligned n st'"
        and e2: "\<And>a. a < n \<Longrightarrow> bonds_of (bond st') (bondlevel st') a
            = bonds_of (bond st1) (bondlevel st1) a
                @ entries a (recorded n ?R (records_from (linecontent st1 = 0) lines))"
        and r2: "\<forall>(x, y, lv) \<in> set (recorded n ?R (records_from (linecontent st1 = 0) lines)).
            0 \<le> x \<and> x < int n \<and> 0 \<le> y \<and> y < int n"
        and o2: "\<forall>s \<in> set (records_from (linecontent st1 = 0) lines).
            \<not> both_images n s \<longrightarrow> order_of (s ! 3) (order_value (s ! 3))"
        by simp_all
      have rc: "recorded n ?R (records_from (linecontent st = 0) (line # lines))
          = recorded n ?R [split line] @ recorded n ?R (records_from (linecontent st1 = 0) lines)"
        unfolding recs by (rule recorded_Cons)
      have e: "bonds_of (bond st') (bondlevel st') a
          = bonds_of (bond st) (bondlevel st) a
              @ entries a (recorded n ?R (records_from (linecontent st = 0) (line # lines)))"
        if "a < n" for a
        using e1[OF that] e2[OF that] by (simp only: rc entries_append append_assoc)
      have rr: "\<forall>(x, y, lv) \<in> set (recorded n ?R (records_from (linecontent st = 0) (line # lines))).
            0 \<le> x \<and> x < int n \<and> 0 \<le> y \<and> y < int n"
        using r1 r2 unfolding rc by auto
      have oo: "\<forall>s \<in> set (records_from (linecontent st = 0) (line # lines)).
            \<not> both_images n s \<longrightarrow> order_of (s ! 3) (order_value (s ! 3))"
        using o1 o2 unfolding recs by simp
      from al' e rr oo show ?thesis by blast
    next
      case nr: False
      with False s1 have st1: "st1 = st" by (auto simp: bond_line_def Let_def split: if_splits)
      from False Cons.prems(3) have num: "numbered_from_one (linecontent st) lines" by simp
      have recs: "records_from (linecontent st = 0) (line # lines)
          = records_from (linecontent st = 0) lines"
        using nr False by auto
      from Cons.IH[OF rest[unfolded st1] Cons.prems(2) num] show ?thesis
        unfolding recs .
    qed
  qed
qed

lemma scan_mol2_recorded:
  assumes "scan_mol2 n rn text = Inr (B, L)"
    and "numbered_from_one (- 1) (split_sep newline text)"
  shows "length B = n \<and> length L = n \<and>
     (\<forall>a < n. length (L ! a) = length (B ! a) \<and>
        bonds_of B L a
          = entries a (recorded n (case rn of None \<Rightarrow> [] | Some r \<Rightarrow> r) (bond_records text))) \<and>
     (\<forall>(x, y, lv) \<in> set (recorded n (case rn of None \<Rightarrow> [] | Some r \<Rightarrow> r) (bond_records text)).
        0 \<le> x \<and> x < int n \<and> 0 \<le> y \<and> y < int n) \<and>
     (\<forall>s \<in> set (bond_records text).
        \<not> both_images n s \<longrightarrow> order_of (s ! 3) (order_value (s ! 3)))"
proof -
  let ?st = "\<lparr>linecontent = - 1, bond = replicate n [], bondlevel = replicate n []\<rparr>"
  from assms(1) obtain st' where run: "bond_lines n rn ?st (split_sep newline text) = Inr st'"
    and res: "B = bond st'" "L = bondlevel st'"
    by (auto simp: scan_mol2_def bindE_Inr_iff)
  have al: "aligned n ?st" by (simp add: aligned_iff)
  have num: "numbered_from_one (linecontent ?st) (split_sep newline text)"
    using assms(2) by simp
  have init: "bonds_of (bond ?st) (bondlevel ?st) a = []" if "a < n" for a
    using that by (simp add: bonds_of_def)
  from bond_lines_recorded[OF run al num] init res show ?thesis
    by (simp add: aligned_iff bond_records_def)
qed

lemma entries_mem:
  "(x, y, lv) \<in> set bs \<Longrightarrow>
   (x = int a \<longrightarrow> (y, lv) \<in> set (entries a bs)) \<and> (y = int a \<longrightarrow> (x, lv) \<in> set (entries a bs))"
  by (force simp: entries_def)

lemma getbondfromcrd_recorded:
  assumes "getbondfromcrd ext pbc step_atoms cell = Inr (B, L)"
    and "numbered_from_one (- 1) (split_sep newline (mol2string ext pbc step_atoms cell))"
  shows "length B = length step_atoms \<and> length L = length step_atoms \<and>
     (\<forall>a < length step_atoms. length (L ! a) = length (B ! a) \<and>
        bonds_of B L a = entries a (recorded_bonds ext pbc step_atoms cell)) \<and>
     (\<forall>(x, y, lv) \<in> set (recorded_bonds ext pbc step_atoms cell).
        0 \<le> x \<and> x < int (length step_atoms) \<and> 0 \<le> y \<and> y < int (length step_atoms)) \<and>
     (\<forall>s \<in> set (bond_records (mol2string ext pbc step_atoms cell)).
        \<not> both_images (length step_atoms) s \<longrightarrow> order_of (s ! 3) (order_value (s ! 3)))"
proof -
  let ?rn = "if pbc then Some (realnumber ext step_atoms cell) else None"
  from assms(1) have scan: "scan_mol2 (length step_atoms) ?rn
      (mol2string ext pbc step_atoms cell) = Inr (B, L)"
    by (simp add: getbondfromcrd_def)
  have rn: "(case ?rn of None \<Rightarrow> [] | Some r \<Rightarrow> r)
      = (if pbc then realnumber ext step_atoms cell else [])"
    by simp
  from scan_mol2_recorded[OF scan assms(2)] show ?thesis
    unfolding rn recorded_bonds_def .
qed

lemma tables_of_entries:
  assumes "length ls = length bs" and "zip bs ls = es"
  shows "bs = map fst es \<and> ls = map snd es"
  using assms by (auto simp: map_fst_zip map_snd_zip)

lemma entries_Cons:
  "entries a ((x, y, lv) # bs)
     = (if x = int a then [(y, lv)] else []) @ (if y = int a then [(x, lv)] else [])
         @ entries a bs"
  by (simp add: entries_def)

lemma count_entries:
  "count_list (map fst (entries a bs)) b
     = length (filter (\<lambda>(x, y, lv). x = int a \<and> y = b) bs)
       + length (filter (\<lambda>(x, y, lv). y = int a \<and> x = b) bs)"
proof (induction bs)
  case Nil
  show ?case by (simp add: entries_def)
next
  case (Cons t bs)
  obtain x y lv where t: "t = (x, y, lv)" by (cases t)
  have c: "count_list (map fst (entries a (t # bs))) b
     = count_list (map fst ((if x = int a then [(y, lv)] else [])
                             @ (if y = int a then [(x, lv)] else []))) b
       + count_list (map fst (entries a bs)) b"
    unfolding t entries_Cons
    by (simp only: map_append count_list_append append_assoc[symmetric])
  show ?case
    unfolding c Cons.IH unfolding t
    by (cases "x = int a"; cases "y = int a"; cases "y = b"; cases "x = b"; simp)
qed

text \<open>The lattice example: the bond records of its text and the tables returned for it.\<close>

lemma lattice_records:
  "bond_records (mol2string lattice_externals True lattice_atoms lattice_cell)
     = [[''1'', ''1'', ''2'', ''ar''], [''2'', ''2'', ''3'', ''ar''],
        [''3'', ''2'', ''5'', ''ar''], [''4'', ''2'', ''7'', ''ar''],
        [''5'', ''3'', ''4'', ''ar''], [''6'', ''4'', ''7'', ''ar''],
        [''7'', ''5'', ''6'', ''ar''], [''8'', ''6'', ''7'', ''ar''],
        [''9'', ''7'', ''8'', ''ar'']]"
  by code_simp

lemma lattice_scan:
  "getbondfromcrd lattice_externals True lattice_atoms lattice_cell
     = Inr ([[1, 1, 1, 1], [0, 0, 0, 0]], [[12, 12, 12, 12], [12, 12, 12, 12]])"
  by code_simp

lemma lattice_numbered:
  "numbered_from_one (- 1) (split_sep newline
     (mol2string lattice_externals True lattice_atoms lattice_cell))"
  by code_simp

lemma lattice_realnumber:
  "realnumber lattice_externals lattice_atoms lattice_cell = [0, 1, 0, 1, 0, 1]"
  by code_simp

lemma lattice_recorded:
  "recorded_bonds lattice_externals True lattice_atoms lattice_cell
     = [(0, 1, 12), (1, 0, 12), (1, 0, 12), (1, 0, 12)]"
  unfolding recorded_bonds_def lattice_records lattice_realnumber
  by code_simp

subsection \<open>Bond orders\<close>

text \<open>
  Claim C6. In the coordinate path the bond-order table that \<open>getbondfromcrd\<close> returns
  holds, for every atom, the orders of the recorded bonds at that atom, in the order of the
  text, and nothing else. The recorded bonds are the bond records of the text of Open Babel
  other than those between two images, and the order of a record is 12 for the type \<open>ar\<close>,
  1 for the type \<open>am\<close>, and the integer value of the field otherwise. Every such record
  is found with that order in the lists of both of its real atoms. A record between two
  images is not recorded, whatever its type.
\<close>

theorem bond_order_recorded:
  assumes "getbondfromcrd ext pbc step_atoms cell = Inr (B, L)"
    and "numbered_from_one (- 1) (split_sep newline (mol2string ext pbc step_atoms cell))"
  shows "length L = length step_atoms \<and>
     (\<forall>a < length step_atoms.
        L ! a = map snd (entries a (recorded_bonds ext pbc step_atoms cell)) \<and>
        bonds_of B L a = entries a (recorded_bonds ext pbc step_atoms cell)) \<and>
     (\<forall>s \<in> set (bond_records (mol2string ext pbc step_atoms cell)).
        \<not> both_images (length step_atoms) s \<longrightarrow>
          order_of (s ! 3) (order_value (s ! 3)) \<and>
          (\<exists>a < length step_atoms. \<exists>b < length step_atoms.
             int a = real_index (length step_atoms)
                       (if pbc then realnumber ext step_atoms cell else []) (fst (record_ends s)) \<and>
             int b = real_index (length step_atoms)
                       (if pbc then realnumber ext step_atoms cell else []) (snd (record_ends s)) \<and>
             (int b, order_value (s ! 3)) \<in> set (bonds_of B L a) \<and>
             (int a, order_value (s ! 3)) \<in> set (bonds_of B L b)))"
proof -
  let ?n = "length step_atoms"
  let ?rn = "if pbc then realnumber ext step_atoms cell else []"
  let ?R = "recorded_bonds ext pbc step_atoms cell"
  let ?rs = "bond_records (mol2string ext pbc step_atoms cell)"
  from getbondfromcrd_recorded[OF assms]
  have len: "length L = ?n"
    and tab: "\<And>a. a < ?n \<Longrightarrow> length (L ! a) = length (B ! a)"
    and ent: "\<And>a. a < ?n \<Longrightarrow> bonds_of B L a = entries a ?R"
    and bnd: "\<forall>(x, y, lv) \<in> set ?R. 0 \<le> x \<and> x < int ?n \<and> 0 \<le> y \<and> y < int ?n"
    and ord: "\<forall>s \<in> set ?rs. \<not> both_images ?n s \<longrightarrow> order_of (s ! 3) (order_value (s ! 3))"
    by simp_all
  have a: "L ! a = map snd (entries a ?R) \<and> bonds_of B L a = entries a ?R" if "a < ?n" for a
    using tables_of_entries[OF tab[OF that], of "entries a ?R"] ent[OF that]
    by (simp add: bonds_of_def)
  have b: "order_of (s ! 3) (order_value (s ! 3)) \<and>
          (\<exists>a < ?n. \<exists>b < ?n.
             int a = real_index ?n ?rn (fst (record_ends s)) \<and>
             int b = real_index ?n ?rn (snd (record_ends s)) \<and>
             (int b, order_value (s ! 3)) \<in> set (bonds_of B L a) \<and>
             (int a, order_value (s ! 3)) \<in> set (bonds_of B L b))"
    if s: "s \<in> set ?rs" and nb: "\<not> both_images ?n s" for s
  proof -
    let ?x = "real_index ?n ?rn (fst (record_ends s))"
    let ?y = "real_index ?n ?rn (snd (record_ends s))"
    let ?lv = "order_value (s ! 3)"
    from s nb have mem: "(?x, ?y, ?lv) \<in> set ?R"
      by (auto simp: recorded_bonds_def recorded_def)
    with bnd have xy: "0 \<le> ?x" "?x < int ?n" "0 \<le> ?y" "?y < int ?n" by auto
    then have na: "nat ?x < ?n" "int (nat ?x) = ?x" and nb': "nat ?y < ?n" "int (nat ?y) = ?y"
      by simp_all
    from entries_mem[OF mem, of "nat ?x"] na ent[OF na(1)]
    have e1: "(?y, ?lv) \<in> set (bonds_of B L (nat ?x))" by simp
    from entries_mem[OF mem, of "nat ?y"] nb' ent[OF nb'(1)]
    have e2: "(?x, ?lv) \<in> set (bonds_of B L (nat ?y))" by simp
    from ord s nb have "order_of (s ! 3) ?lv" by blast
    with na nb' e1 e2 show ?thesis
      by (intro conjI exI[of _ "nat ?x"] exI[of _ "nat ?y"]) simp_all
  qed
  from len a b show ?thesis by blast
qed

theorem bond_order_recorded_witness:
  "getbondfromcrd lattice_externals True lattice_atoms lattice_cell
     = Inr ([[1, 1, 1, 1], [0, 0, 0, 0]], [[12, 12, 12, 12], [12, 12, 12, 12]]) \<and>
   numbered_from_one (- 1) (split_sep newline
     (mol2string lattice_externals True lattice_atoms lattice_cell)) \<and>
   recorded_bonds lattice_externals True lattice_atoms lattice_cell
     = [(0, 1, 12), (1, 0, 12), (1, 0, 12), (1, 0, 12)] \<and>
   [[12, 12, 12, 12], [12, 12, 12, 12]] ! 0
     = map snd (entries 0 [(0, 1, 12), (1, 0, 12), (1, 0, 12), (1, 0, 12)]) \<and>
   [[12, 12, 12, 12], [12, 12, 12, 12]] ! 1
     = map snd (entries 1 [(0, 1, 12), (1, 0, 12), (1, 0, 12), (1, 0, 12)]) \<and>
   [''2'', ''2'', ''3'', ''ar'']
     \<in> set (bond_records (mol2string lattice_externals True lattice_atoms lattice_cell)) \<and>
   \<not> both_images (length lattice_atoms) [''2'', ''2'', ''3'', ''ar''] \<and>
   order_of ''ar'' (order_value ''ar'') \<and> order_value ''ar'' = 12"
proof -
  let ?B = "[[1, 1, 1, 1], [0, 0, 0, 0 :: int]]"
  let ?L = "[[12, 12, 12, 12], [12, 12, 12, 12 :: int]]"
  let ?s = "[''2'', ''2'', ''3'', ''ar'']"
  note h1 = lattice_scan and h2 = lattice_numbered and r = lattice_recorded
  have n: "length lattice_atoms = 2" by (simp add: lattice_atoms_def)
  have m: "?s \<in> set (bond_records (mol2string lattice_externals True lattice_atoms lattice_cell))"
    unfolding lattice_records by simp
  have nb: "\<not> both_images (length lattice_atoms) ?s" by code_simp
  have v: "order_value ''ar'' = 12" by (simp add: order_value_def)
  note main = bond_order_recorded[OF h1 h2]
  from main have "\<forall>a < length lattice_atoms.
      ?L ! a = map snd (entries a (recorded_bonds lattice_externals True lattice_atoms lattice_cell))"
    by blast
  then have all: "\<And>a. a < 2 \<Longrightarrow>
      ?L ! a = map snd (entries a [(0, 1, 12), (1, 0, 12), (1, 0, 12), (1, 0, 12)])"
    unfolding r n by blast
  have l: "?L ! 0 = map snd (entries 0 [(0, 1, 12), (1, 0, 12), (1, 0, 12), (1, 0, 12)])"
      "?L ! 1 = map snd (entries 1 [(0, 1, 12), (1, 0, 12), (1, 0, 12), (1, 0, 12)])"
    using all[of 0] all[of 1] by simp_all
  from main m nb have "order_of (?s ! 3) (order_value (?s ! 3))" by blast
  then have o: "order_of ''ar'' (order_value ''ar'')" by simp
  from h1 h2 r l m nb o v show ?thesis by blast
qed

text \<open>
  The claim as stated speaks of every bond that Open Babel reports. For the lattice it
  reports nine bonds, all aromatic; the five between two images are dropped, so only four
  bonds are recorded, with eight entries of order 12 in all.
\<close>

theorem bond_order_recorded_counterexample:
  "length (bond_records (mol2string lattice_externals True lattice_atoms lattice_cell)) = 9 \<and>
   list_all (\<lambda>s. s ! 3 = ''ar'')
     (bond_records (mol2string lattice_externals True lattice_atoms lattice_cell)) \<and>
   bond_records (mol2string lattice_externals True lattice_atoms lattice_cell) ! 8
     = [''9'', ''7'', ''8'', ''ar''] \<and>
   both_images (length lattice_atoms) [''9'', ''7'', ''8'', ''ar''] \<and>
   getbondfromcrd lattice_externals True lattice_atoms lattice_cell
     = Inr ([[1, 1, 1, 1], [0, 0, 0, 0]], [[12, 12, 12, 12], [12, 12, 12, 12]]) \<and>
   (case getbondfromcrd lattice_externals True lattice_atoms lattice_cell of
      Inl e \<Rightarrow> False
    | Inr (B, L) \<Rightarrow> length (concat L) = 8)"
proof -
  have "both_images (length lattice_atoms) [''9'', ''7'', ''8'', ''ar'']" by code_simp
  then show ?thesis
    unfolding lattice_records lattice_scan by simp
qed


subsection \<open>Periodic images\<close>

lemma kept_props:
  assumes "j < length (kept ext step_atoms cell)"
  shows "kept ext step_atoms cell ! j < length (repeated_atoms ext step_atoms cell) \<and>
         float_lt (nearest_dist ext step_atoms
            (repeated_atoms ext step_atoms cell ! (kept ext step_atoms cell ! j))) 5"
proof -
  let ?k = "kept ext step_atoms cell ! j"
  from assms have "?k \<in> set (kept ext step_atoms cell)" by simp
  then have "?k < length (nearest ext step_atoms cell)" "nearest ext step_atoms cell ! ?k"
    by (simp_all add: kept_def)
  then show ?thesis by (simp add: nearest_def)
qed

text \<open>
  Claim C2. With periodic boundaries on, the atoms given to Open Babel are the real atoms
  followed by the kept images; every kept image is an atom of the doubled box whose nearest
  real atom is closer than 5, and its real atom is its index modulo the number of real
  atoms. The neighbour table that \<open>getbondfromcrd\<close> returns holds, for every atom, the other
  ends of the recorded bonds at that atom and nothing else: a record between two images
  leaves no entry, and any other record leaves one entry at each of its two real atoms, an
  end that is an image being replaced by its real atom. Records are not merged: the
  number of entries of \<open>b\<close> in the list of \<open>a\<close> is the number of recorded bonds between
  \<open>a\<close> and \<open>b\<close>.
\<close>

theorem periodic_images:
  assumes "getbondfromcrd ext True step_atoms cell = Inr (B, L)"
    and "numbered_from_one (- 1) (split_sep newline (mol2string ext True step_atoms cell))"
  shows "oracle_atoms ext True step_atoms cell = step_atoms @ ghost_atoms ext step_atoms cell \<and>
    length (realnumber ext step_atoms cell) = length (ghost_atoms ext step_atoms cell) \<and>
    (\<forall>j < length (ghost_atoms ext step_atoms cell).
       \<exists>m < length (repeated_atoms ext step_atoms cell).
         ghost_atoms ext step_atoms cell ! j = repeated_atoms ext step_atoms cell ! m \<and>
         float_lt (nearest_dist ext step_atoms (repeated_atoms ext step_atoms cell ! m)) 5 \<and>
         realnumber ext step_atoms cell ! j = m mod length step_atoms \<and>
         real_index (length step_atoms) (realnumber ext step_atoms cell)
           (int (length step_atoms + j)) = int (m mod length step_atoms)) \<and>
    length B = length step_atoms \<and>
    (\<forall>a < length step_atoms.
       B ! a = map fst (entries a (recorded_bonds ext True step_atoms cell))) \<and>
    (\<forall>(x, y, order) \<in> set (recorded_bonds ext True step_atoms cell).
       0 \<le> x \<and> x < int (length step_atoms) \<and> 0 \<le> y \<and> y < int (length step_atoms)) \<and>
    (\<forall>a < length step_atoms. \<forall>b.
       count_list (B ! a) b
         = length (filter (\<lambda>(x, y, order). x = int a \<and> y = b)
                     (recorded_bonds ext True step_atoms cell))
           + length (filter (\<lambda>(x, y, order). y = int a \<and> x = b)
                       (recorded_bonds ext True step_atoms cell)))"
proof -
  let ?n = "length step_atoms"
  let ?rn = "realnumber ext step_atoms cell"
  let ?g = "ghost_atoms ext step_atoms cell"
  let ?R = "recorded_bonds ext True step_atoms cell"
  have lens: "length ?rn = length ?g" "length ?g = length (kept ext step_atoms cell)"
    by (simp_all add: realnumber_def ghost_atoms_def)
  have a: "oracle_atoms ext True step_atoms cell = step_atoms @ ?g"
    by (simp add: oracle_atoms_def)
  have b: "\<exists>m < length (repeated_atoms ext step_atoms cell).
         ?g ! j = repeated_atoms ext step_atoms cell ! m \<and>
         float_lt (nearest_dist ext step_atoms (repeated_atoms ext step_atoms cell ! m)) 5 \<and>
         ?rn ! j = m mod ?n \<and>
         real_index ?n ?rn (int (?n + j)) = int (m mod ?n)" if "j < length ?g" for j
  proof -
    from that lens have j: "j < length (kept ext step_atoms cell)" by simp
    from kept_props[OF j] j show ?thesis
      by (intro exI[of _ "kept ext step_atoms cell ! j"])
        (simp add: ghost_atoms_def realnumber_def real_index_def)
  qed
  from getbondfromcrd_recorded[OF assms]
  have len: "length B = ?n"
    and tab: "\<And>a. a < ?n \<Longrightarrow> length (L ! a) = length (B ! a)"
    and ent: "\<And>a. a < ?n \<Longrightarrow> bonds_of B L a = entries a ?R"
    and bnd: "\<forall>(x, y, lv) \<in> set ?R. 0 \<le> x \<and> x < int ?n \<and> 0 \<le> y \<and> y < int ?n"
    by simp_all
  have c: "B ! a = map fst (entries a ?R)" if "a < ?n" for a
    using tables_of_entries[OF tab[OF that], of "entries a ?R"] ent[OF that]
    by (simp add: bonds_of_def)
  have d: "count_list (B ! a) b
         = length (filter (\<lambda>(x, y, order). x = int a \<and> y = b) ?R)
           + length (filter (\<lambda>(x, y, order). y = int a \<and> x = b) ?R)" if "a < ?n" for a b
    by (simp only: c[OF that] count_entries)
  from a lens(1) b len c bnd d show ?thesis by blast
qed

theorem periodic_images_witness:
  "getbondfromcrd example_externals True example_atoms [Finite 10, Finite 10, Finite 10]
     = Inr ([[1], [0]], [[1], [1]]) \<and>
   numbered_from_one (- 1) (split_sep newline
     (mol2string example_externals True example_atoms [Finite 10, Finite 10, Finite 10])) \<and>
   ghost_atoms example_externals example_atoms [Finite 10, Finite 10, Finite 10]
     = [\<lparr>symbol = ''O'', position = (Finite (21 / 2), Finite 5, Finite 5)\<rparr>] \<and>
   realnumber example_externals example_atoms [Finite 10, Finite 10, Finite 10] = [0] \<and>
   bond_records (mol2string example_externals True example_atoms [Finite 10, Finite 10, Finite 10])
     = [[''1'', ''2'', ''3'', ''1'']] \<and>
   recorded_bonds example_externals True example_atoms [Finite 10, Finite 10, Finite 10]
     = [(1, 0, 1)] \<and>
   [[1], [0]] ! 0 = map fst (entries 0 [(1, 0, 1)]) \<and>
   [[1], [0]] ! 1 = map fst (entries 1 [(1, 0, 1)]) \<and>
   count_list ([[1], [0]] ! 1) (0 :: int) = 1 \<and>
   count_list ([[1], [0]] ! 0) (1 :: int) = 1"
proof -
  let ?cell = "[Finite 10, Finite 10, Finite 10]"
  let ?B = "[[1], [0 :: int]]"
  have h1: "getbondfromcrd example_externals True example_atoms ?cell = Inr (?B, [[1], [1]])"
    by code_simp
  have h2: "numbered_from_one (- 1) (split_sep newline
     (mol2string example_externals True example_atoms ?cell))"
    by code_simp
  have g: "ghost_atoms example_externals example_atoms ?cell
     = [\<lparr>symbol = ''O'', position = (Finite (21 / 2), Finite 5, Finite 5)\<rparr>]" by code_simp
  have rn: "realnumber example_externals example_atoms ?cell = [0]" by code_simp
  have rs: "bond_records (mol2string example_externals True example_atoms ?cell)
     = [[''1'', ''2'', ''3'', ''1'']]" by code_simp
  have r: "recorded_bonds example_externals True example_atoms ?cell = [(1, 0, 1)]"
    by code_simp
  have n: "length example_atoms = 2" by (simp add: example_atoms_def)
  note main = periodic_images[OF h1 h2]
  from main have "\<forall>a < length example_atoms.
      ?B ! a = map fst (entries a (recorded_bonds example_externals True example_atoms ?cell))"
    by blast
  then have all: "\<And>a. a < 2 \<Longrightarrow> ?B ! a = map fst (entries a [(1, 0, 1)])"
    unfolding r n by blast
  have b: "?B ! 0 = map fst (entries 0 [(1, 0, 1)])" "?B ! 1 = map fst (entries 1 [(1, 0, 1)])"
    using all[of 0] all[of 1] by simp_all
  from main have "\<forall>a < length example_atoms. \<forall>b.
       count_list (?B ! a) b
         = length (filter (\<lambda>(x, y, order). x = int a \<and> y = b)
                     (recorded_bonds example_externals True example_atoms ?cell))
           + length (filter (\<lambda>(x, y, order). y = int a \<and> x = b)
                       (recorded_bonds example_externals True example_atoms ?cell))"
    by blast
  then have cnt: "\<forall>a < 2. \<forall>b.
       count_list (?B ! a) b
         = length (filter (\<lambda>(x, y, order). x = int a \<and> y = b) [(1, 0, 1 :: int)])
           + length (filter (\<lambda>(x, y, order). y = int a \<and> x = b) [(1, 0, 1 :: int)])"
    unfolding r n .
  have c: "count_list (?B ! 1) 0 = 1" "count_list (?B ! 0) 1 = 1"
    using cnt[rule_format, of 1 0] cnt[rule_format, of 0 1] by simp_all
  from h1 h2 g rn rs r b c show ?thesis by blast
qed

text \<open>
  The claim as stated has the bond of a real atom with an image recorded exactly once
  between the two real atoms. In the lattice the second atom is bonded to the first one
  and to three images of it, and the returned graph holds the bond between the two real
  atoms four times.
\<close>

theorem periodic_images_counterexample:
  "realnumber lattice_externals lattice_atoms lattice_cell = [0, 1, 0, 1, 0, 1] \<and>
   bond_records (mol2string lattice_externals True lattice_atoms lattice_cell) ! 1
     = [''2'', ''2'', ''3'', ''ar''] \<and>
   record_ends [''2'', ''2'', ''3'', ''ar''] = (1, 2) \<and>
   real_index (length lattice_atoms) (realnumber lattice_externals lattice_atoms lattice_cell) 2
     = 0 \<and>
   getbondfromcrd lattice_externals True lattice_atoms lattice_cell
     = Inr ([[1, 1, 1, 1], [0, 0, 0, 0]], [[12, 12, 12, 12], [12, 12, 12, 12]]) \<and>
   (case getbondfromcrd lattice_externals True lattice_atoms lattice_cell of
      Inl e \<Rightarrow> False
    | Inr (B, L) \<Rightarrow> count_list (B ! 1) 0 = 4 \<and> count_list (B ! 0) 1 = 4)"
proof -
  have "record_ends [''2'', ''2'', ''3'', ''ar''] = (1, 2)" by code_simp
  moreover have "real_index (length lattice_atoms) [0, 1, 0, 1, 0, 1] 2 = 0" by code_simp
  ultimately show ?thesis
    unfolding lattice_records lattice_scan lattice_realnumber by simp
qed


section \<open>Properties of the molecule extraction\<close>

lemma seen_update: "s < length v \<Longrightarrow> seen (v[s := True]) = insert s (seen v)"
  by (auto simp: seen_def nth_list_update)

lemma seen_replicate: "seen (replicate n False) = {}"
  by (auto simp: seen_def)

lemma push_neighbours_stack:
  "push_neighbours v s nb stack bl = Inr (stack', bl') \<Longrightarrow>
   set stack' \<subseteq> set stack \<union> {nat b |b l. (b, l) \<in> set nb \<and> 0 \<le> b \<and> b < int (length v)}"
proof (induction v s nb stack bl rule: push_neighbours.induct)
  case (1 visited s stack bl)
  then show ?case by auto
next
  case (2 visited s b l rest stack bl)
  then show ?case by (fastforce split: if_splits)
qed

lemma push_neighbours_total:
  "\<forall>(b, l) \<in> set nb. 0 \<le> b \<and> b < int (length v) \<Longrightarrow>
   \<exists>stack' bl'. push_neighbours v s nb stack bl = Inr (stack', bl')"
proof (induction v s nb stack bl rule: push_neighbours.induct)
  case (1 visited s stack bl)
  then show ?case by simp
next
  case (2 visited s b l rest stack bl)
  then show ?case by auto
qed

lemma push_neighbours_empty: "push_neighbours v s [] stack bl = Inr (stack, bl)"
  by simp

lemma dfs_result:
  "dfs bonds levels stack visited mol bl = Inr (visited', mol', bl') \<Longrightarrow>
   length visited' = length visited \<and> seen visited \<subseteq> seen visited' \<and>
   (\<exists>new. mol' = mol @ new \<and> distinct new \<and> set new = seen visited' - seen visited)"
proof (induction bonds levels stack visited mol bl rule: dfs.induct)
  case (1 bonds levels visited mol bl)
  then show ?case by simp
next
  case (2 bonds levels s stack visited mol bl)
  show ?case
  proof (cases "visited ! s")
    case True
    with "2.prems" "2.IH"(1) show ?thesis by (simp split: if_splits)
  next
    case False
    from "2.prems" have s: "s < length visited" by (simp split: if_splits)
    with False "2.prems" obtain stack' bl1 where
      push: "push_neighbours (visited[s := True]) s (neighbours bonds levels s) stack bl
               = Inr (stack', bl1)"
      and rec: "dfs bonds levels stack' (visited[s := True]) (mol @ [s]) bl1
               = Inr (visited', mol', bl')"
      by (auto split: sum.splits)
    from "2.IH"(2)[OF _ False push refl rec] s
    obtain new where len: "length visited' = length visited"
      and mono: "seen (visited[s := True]) \<subseteq> seen visited'"
      and new: "mol' = (mol @ [s]) @ new" "distinct new"
        "set new = seen visited' - seen (visited[s := True])"
      by auto
    from False s have notin: "s \<notin> seen visited" by (simp add: seen_def)
    from mono s have sin: "s \<in> seen visited'" and sub: "seen visited \<subseteq> seen visited'"
      by (auto simp: seen_update)
    have "mol' = mol @ (s # new)" using new(1) by simp
    moreover have "distinct (s # new)" using new(2,3) s by (simp add: seen_update)
    moreover have "set (s # new) = seen visited' - seen visited"
      using new(3) s sin notin by (auto simp: seen_update)
    ultimately show ?thesis using len sub by blast
  qed
qed

lemma dfs_start:
  assumes "dfs bonds levels [i] visited [] [] = Inr (visited', mol, bl)"
    and "i < length visited" "\<not> visited ! i"
  shows "i \<in> set mol"
proof -
  from assms obtain stack' bl1 where
    rec: "dfs bonds levels stack' (visited[i := True]) [i] bl1 = Inr (visited', mol, bl)"
    by (auto split: sum.splits)
  from dfs_result[OF rec] show ?thesis by auto
qed

lemma dfs_total:
  "wellformed bonds levels \<Longrightarrow> length visited = length bonds \<Longrightarrow>
   \<forall>s \<in> set stack. s < length bonds \<Longrightarrow>
   \<exists>r. dfs bonds levels stack visited mol bl = Inr r"
proof (induction bonds levels stack visited mol bl rule: dfs.induct)
  case (1 bonds levels visited mol bl)
  then show ?case by simp
next
  case (2 bonds levels s stack visited mol bl)
  from "2.prems" have s: "s < length visited" by simp
  show ?case
  proof (cases "visited ! s")
    case True
    with "2.IH"(1) "2.prems" s show ?thesis by simp
  next
    case False
    from "2.prems"(1) s "2.prems"(2)
    have nb: "\<forall>(b, l) \<in> set (neighbours bonds levels s).
        0 \<le> b \<and> b < int (length (visited[s := True]))"
      by (simp add: wellformed_def)
    from push_neighbours_total[OF nb] obtain stack' bl1 where
      push: "push_neighbours (visited[s := True]) s (neighbours bonds levels s) stack bl
               = Inr (stack', bl1)"
      by blast
    from push_neighbours_stack[OF push] "2.prems"(2,3)
    have "\<forall>x \<in> set stack'. x < length bonds" by auto
    with "2.IH"(2)[OF _ False push refl] s "2.prems"(1,2)
    have "\<exists>r. dfs bonds levels stack' (visited[s := True]) (mol @ [s]) bl1 = Inr r"
      by simp
    with push False s show ?thesis by simp
  qed
qed

lemma dps_from_partition:
  "dps_from bonds levels todo visited = Inr (molecule, bondlist) \<Longrightarrow>
   \<forall>i \<in> set todo. i < length visited \<Longrightarrow>
   length bondlist = length molecule \<and> [] \<notin> set molecule \<and>
   distinct (concat molecule) \<and>
   set (concat molecule) \<inter> seen visited = {} \<and>
   set (concat molecule) \<subseteq> {..<length visited} \<and>
   set todo - seen visited \<subseteq> set (concat molecule)"
proof (induction todo arbitrary: visited molecule bondlist)
  case Nil
  then show ?case by simp
next
  case (Cons i rest)
  from Cons.prems(2) have i: "i < length visited" by simp
  show ?case
  proof (cases "visited ! i")
    case True
    with Cons.prems have "dps_from bonds levels rest visited = Inr (molecule, bondlist)"
      by simp
    from Cons.IH[OF this] Cons.prems(2) True i show ?thesis by (auto simp: seen_def)
  next
    case False
    with Cons.prems(1) obtain visited' mol bl ms bs where
      d: "dfs bonds levels [i] visited [] [] = Inr (visited', mol, bl)"
      and r: "dps_from bonds levels rest visited' = Inr (ms, bs)"
      and eq: "molecule = mol # ms" "bondlist = bl # bs"
      by (auto split: sum.splits)
    from dfs_result[OF d] have len: "length visited' = length visited"
      and mono: "seen visited \<subseteq> seen visited'"
      and mol: "distinct mol" "set mol = seen visited' - seen visited"
      by auto
    from dfs_start[OF d i False] have imol: "i \<in> set mol" .
    from Cons.prems(2) len have "\<forall>i \<in> set rest. i < length visited'" by simp
    from Cons.IH[OF r this] have ih: "length bs = length ms" "[] \<notin> set ms"
      "distinct (concat ms)" "set (concat ms) \<inter> seen visited' = {}"
      "set (concat ms) \<subseteq> {..<length visited'}" "set rest - seen visited' \<subseteq> set (concat ms)"
      by auto
    have "set mol \<subseteq> {..<length visited}" using mol(2) len by (auto simp: seen_def)
    moreover have "set mol \<inter> set (concat ms) = {}" using mol(2) ih(4) by auto
    moreover have "set (i # rest) - seen visited \<subseteq> set mol \<union> set (concat ms)"
      using mol(2) ih(6) imol by auto
    moreover have "(set mol \<union> set (concat ms)) \<inter> seen visited = {}"
      using mol(2) ih(4) mono by auto
    ultimately show ?thesis using eq ih mol(1) imol len by auto
  qed
qed

lemma dps_from_total:
  "wellformed bonds levels \<Longrightarrow> length visited = length bonds \<Longrightarrow>
   \<forall>i \<in> set todo. i < length bonds \<Longrightarrow>
   \<exists>r. dps_from bonds levels todo visited = Inr r"
proof (induction todo arbitrary: visited)
  case Nil
  then show ?case by simp
next
  case (Cons i rest)
  show ?case
  proof (cases "visited ! i")
    case True
    with Cons show ?thesis by simp
  next
    case False
    from dfs_total[OF Cons.prems(1,2), of "[i]" "[]" "[]"] Cons.prems(3)
    obtain visited' mol bl where d: "dfs bonds levels [i] visited [] [] = Inr (visited', mol, bl)"
      by (metis list.set_intros(1) empty_iff empty_set set_ConsD prod_cases3)
    from dfs_result[OF d] Cons.prems(2) have "length visited' = length bonds" by simp
    from Cons.IH[OF Cons.prems(1) this] Cons.prems(3)
    obtain r where "dps_from bonds levels rest visited' = Inr r" by auto
    with d False show ?thesis by (cases r) simp
  qed
qed


lemma dfs_untouched:
  "dfs bonds levels stack visited mol bl = Inr (visited', mol', bl') \<Longrightarrow>
   a < length visited \<Longrightarrow> \<not> visited ! a \<Longrightarrow> a \<notin> set stack \<Longrightarrow>
   \<forall>s < length visited. \<forall>(b, l) \<in> set (neighbours bonds levels s). b \<noteq> int a \<Longrightarrow>
   \<not> visited' ! a"
proof (induction bonds levels stack visited mol bl rule: dfs.induct)
  case (1 bonds levels visited mol bl)
  then show ?case by simp
next
  case (2 bonds levels s stack visited mol bl)
  show ?case
  proof (cases "visited ! s")
    case True
    with "2.prems" "2.IH"(1) show ?thesis by (simp split: if_splits)
  next
    case False
    from "2.prems"(1) have s: "s < length visited" by (simp split: if_splits)
    with False "2.prems"(1) obtain stack' bl1 where
      push: "push_neighbours (visited[s := True]) s (neighbours bonds levels s) stack bl
               = Inr (stack', bl1)"
      and rec: "dfs bonds levels stack' (visited[s := True]) (mol @ [s]) bl1
               = Inr (visited', mol', bl')"
      by (auto split: sum.splits)
    from "2.prems"(4) have sa: "s \<noteq> a" by auto
    from "2.prems"(5) s have nb: "\<forall>(b, l) \<in> set (neighbours bonds levels s). b \<noteq> int a"
      by simp
    have "a \<notin> set stack'"
    proof
      assume "a \<in> set stack'"
      with push_neighbours_stack[OF push] "2.prems"(4)
      obtain b l where "a = nat b" "(b, l) \<in> set (neighbours bonds levels s)" "0 \<le> b"
        by auto
      with nb show False by auto
    qed
    with "2.IH"(2)[OF _ False push refl rec] "2.prems"(2,3,5) sa s show ?thesis
      by simp
  qed
qed

lemma dfs_isolated:
  assumes "a < length visited" "\<not> visited ! a" "neighbours bonds levels a = []"
  shows "dfs bonds levels [a] visited [] [] = Inr (visited[a := True], [a], [])"
  using assms by simp

lemma dps_from_isolated:
  "dps_from bonds levels todo visited = Inr (molecule, bondlist) \<Longrightarrow>
   \<forall>i \<in> set todo. i < length visited \<Longrightarrow>
   a \<in> set todo \<Longrightarrow> \<not> visited ! a \<Longrightarrow> neighbours bonds levels a = [] \<Longrightarrow>
   \<forall>s < length visited. \<forall>(b, l) \<in> set (neighbours bonds levels s). b \<noteq> int a \<Longrightarrow>
   ([a], []) \<in> set (zip molecule bondlist)"
proof (induction todo arbitrary: visited molecule bondlist)
  case Nil
  then show ?case by simp
next
  case (Cons i rest)
  from Cons.prems(2) have i: "i < length visited" by simp
  from Cons.prems(2,3) have a: "a < length visited" by auto
  show ?case
  proof (cases "i = a")
    case True
    from dfs_isolated[OF a Cons.prems(4,5)] Cons.prems(1,4) True show ?thesis
      by (auto split: sum.splits)
  next
    case ia: False
    with Cons.prems(3) have arest: "a \<in> set rest" by simp
    show ?thesis
    proof (cases "visited ! i")
      case True
      with Cons.prems(1) have "dps_from bonds levels rest visited = Inr (molecule, bondlist)"
        by simp
      from Cons.IH[OF this _ arest Cons.prems(4,5,6)] Cons.prems(2) show ?thesis by simp
    next
      case False
      with Cons.prems(1) obtain visited' mol bl ms bs where
        d: "dfs bonds levels [i] visited [] [] = Inr (visited', mol, bl)"
        and r: "dps_from bonds levels rest visited' = Inr (ms, bs)"
        and eq: "molecule = mol # ms" "bondlist = bl # bs"
        by (auto split: sum.splits)
      from dfs_result[OF d] have len: "length visited' = length visited" by simp
      from ia have "a \<notin> set [i]" by simp
      from dfs_untouched[OF d a Cons.prems(4) this Cons.prems(6)] have na: "\<not> visited' ! a" .
      from Cons.IH[OF r _ arest na Cons.prems(5)] Cons.prems(2,6) len eq show ?thesis
        by simp
    qed
  qed
qed

lemma symmetric_isolated:
  assumes "symmetric bonds levels" "wellformed bonds levels" "a < length bonds"
    "neighbours bonds levels a = []"
  shows "\<forall>s < length bonds. \<forall>(b, l) \<in> set (neighbours bonds levels s). b \<noteq> int a"
proof (intro allI impI, clarify)
  fix s l assume s: "s < length bonds" and "(int a, l) \<in> set (neighbours bonds levels s)"
  from assms(1) s have "\<forall>(b, l) \<in> set (neighbours bonds levels s).
      (int s, l) \<in> set (neighbours bonds levels (nat b))"
    by (simp add: symmetric_def)
  with \<open>(int a, l) \<in> set (neighbours bonds levels s)\<close>
  have "(int s, l) \<in> set (neighbours bonds levels (nat (int a)))" by fastforce
  with assms(4) show False by simp
qed

lemma wellformed_upt:
  "wellformed bonds levels \<longleftrightarrow>
     (\<forall>s \<in> set [0..<length bonds]. \<forall>(b, l) \<in> set (neighbours bonds levels s).
        0 \<le> b \<and> b < int (length bonds))"
  by (auto simp: wellformed_def)

lemma symmetric_upt:
  "symmetric bonds levels \<longleftrightarrow>
     (\<forall>s \<in> set [0..<length bonds]. \<forall>(b, l) \<in> set (neighbours bonds levels s).
        (int s, l) \<in> set (neighbours bonds levels (nat b)))"
  by (auto simp: symmetric_def)

text \<open>
  Claim C1. For a bond graph of size N whose neighbours are atoms \<open>0..N-1\<close>, with \<open>None\<close>
  entries read as atoms without neighbours, the extraction returns molecules with one bond
  list each, \<open>connectmolecule\<close> returns one key for each of them, and the molecules
  partition the atoms: every atom index below N occurs in exactly one molecule, and once
  in it. If moreover the graph is symmetric, an atom with an empty neighbour list is a
  molecule of its own with an empty bond list.
\<close>

theorem molecules_partition_atoms:
  assumes "wellformed bonds levels"
  shows "\<exists>molecule bondlist.
     dps bonds levels = Inr (molecule, bondlist) \<and>
     connectmolecule ext bonds levels
       = Inr (map (\<lambda>(mol, bl). listtobytes_mol ext mol @ '' '' @ listtobytes_bond ext bl)
                (zip molecule bondlist)) \<and>
     length bondlist = length molecule \<and>
     distinct (concat molecule) \<and>
     set (concat molecule) = {..<length bonds} \<and>
     (\<forall>a < length bonds. \<exists>!k. k < length molecule \<and> a \<in> set (molecule ! k)) \<and>
     (symmetric bonds levels \<longrightarrow>
        (\<forall>a < length bonds. neighbours bonds levels a = [] \<longrightarrow>
           ([a], []) \<in> set (zip molecule bondlist)))"
proof -
  let ?v0 = "replicate (length bonds) False"
  let ?todo = "[0..<length bonds]"
  from dps_from_total[OF assms, of ?v0 ?todo] obtain molecule bondlist where
    run: "dps_from bonds levels ?todo ?v0 = Inr (molecule, bondlist)"
    by auto
  have todo: "\<forall>i \<in> set ?todo. i < length ?v0" by simp
  from dps_from_partition[OF run todo] have
    len: "length bondlist = length molecule" and ne: "[] \<notin> set molecule" and
    dist: "distinct (concat molecule)" and
    sub: "set (concat molecule) \<subseteq> {..<length bonds}" and
    sup: "set ?todo - seen ?v0 \<subseteq> set (concat molecule)"
    by simp_all
  from sub sup have cover: "set (concat molecule) = {..<length bonds}"
    by (auto simp: seen_replicate)
  have one: "\<exists>!k. k < length molecule \<and> a \<in> set (molecule ! k)" if "a < length bonds" for a
  proof -
    from that cover have "a \<in> set (concat molecule)" by simp
    then obtain ys where "ys \<in> set molecule" "a \<in> set ys" by auto
    then obtain k where k: "k < length molecule" "a \<in> set (molecule ! k)"
      by (metis in_set_conv_nth)
    have "k' = k" if k': "k' < length molecule" "a \<in> set (molecule ! k')" for k'
    proof (rule ccontr)
      assume neq: "k' \<noteq> k"
      from dist have dj: "\<And>ys zs. ys \<in> set molecule \<Longrightarrow> zs \<in> set molecule \<Longrightarrow> ys \<noteq> zs \<Longrightarrow>
                   set ys \<inter> set zs = {}"
        by (auto simp: distinct_concat_iff)
      from dist ne have dm: "distinct molecule"
        by (simp add: distinct_concat_iff removeAll_id)
      with neq k k' have "molecule ! k \<noteq> molecule ! k'"
        by (simp add: nth_eq_iff_index_eq)
      from dj[OF _ _ this] k k' show False by auto
    qed
    with k show ?thesis by blast
  qed
  have iso: "([a], []) \<in> set (zip molecule bondlist)"
    if "symmetric bonds levels" "a < length bonds" "neighbours bonds levels a = []" for a
  proof -
    from symmetric_isolated[OF that(1) assms that(2,3)]
    have "\<forall>s < length ?v0. \<forall>(b, l) \<in> set (neighbours bonds levels s). b \<noteq> int a" by simp
    from dps_from_isolated[OF run todo _ _ that(3) this] that(2) show ?thesis by simp
  qed
  from run have d: "dps bonds levels = Inr (molecule, bondlist)" by (simp add: dps_def)
  then have c: "connectmolecule ext bonds levels
       = Inr (map (\<lambda>(mol, bl). listtobytes_mol ext mol @ '' '' @ listtobytes_bond ext bl)
                (zip molecule bondlist))"
    by (simp add: connectmolecule_def bindE_def)
  from d c len dist cover one iso show ?thesis by blast
qed

theorem molecules_partition_atoms_witness:
  "wellformed example_bonds example_levels \<and>
   symmetric example_bonds example_levels \<and>
   dps example_bonds example_levels
     = Inr ([[0, 1, 2], [3], [4]], [[(0, 1, 1), (1, 2, 2)], [], []]) \<and>
   ([3], []) \<in> set (zip [[0, 1, 2], [3], [4]] [[(0, 1, 1), (1, 2, 2 :: int)], [], []]) \<and>
   ([4], []) \<in> set (zip [[0, 1, 2], [3], [4]] [[(0, 1, 1), (1, 2, 2 :: int)], [], []])"
proof -
  have wf: "wellformed example_bonds example_levels"
    unfolding wellformed_upt by code_simp
  have sym: "symmetric example_bonds example_levels"
    unfolding symmetric_upt by code_simp
  have run: "dps example_bonds example_levels
     = Inr ([[0, 1, 2], [3], [4]], [[(0, 1, 1), (1, 2, 2)], [], []])"
    by code_simp
  have n3: "neighbours example_bonds example_levels 3 = []" by code_simp
  have n4: "neighbours example_bonds example_levels 4 = []" by code_simp
  have len: "length example_bonds = 5" by (simp add: example_bonds_def)
  from molecules_partition_atoms[OF wf] run sym
  have "\<forall>a < length example_bonds. neighbours example_bonds example_levels a = [] \<longrightarrow>
           ([a], []) \<in> set (zip [[0, 1, 2], [3], [4]] [[(0, 1, 1), (1, 2, 2 :: int)], [], []])"
    by simp
  with n3 n4 len wf sym run show ?thesis by simp
qed

section \<open>Properties of the bond-file reader\<close>

lemma py_index_nat: "py_index n i = Inr k \<Longrightarrow> 0 \<le> i \<Longrightarrow> k = nat i"
  by (auto simp: py_index_def split: if_splits)

lemma round_half_even_nearest: "\<bar>of_int (round_half_even q) - q\<bar> \<le> 1 / 2"
proof -
  have "of_int \<lfloor>q\<rfloor> \<le> q" "q < of_int \<lfloor>q\<rfloor> + 1" by linarith+
  then show ?thesis
    by (auto simp: round_half_even_def Let_def)
qed

lemma round_half_even_low:
  assumes "q < 3 / 2"
  shows "round_half_even q \<le> 1"
proof -
  have fl: "of_int \<lfloor>q\<rfloor> \<le> q" by linarith
  with assms have "(of_int \<lfloor>q\<rfloor> :: rat) < 2" by linarith
  then have f1: "\<lfloor>q\<rfloor> \<le> 1" by linarith
  show ?thesis
  proof (cases "\<lfloor>q\<rfloor> = 1")
    case True
    with assms have "q - of_int \<lfloor>q\<rfloor> < 1 / 2" by simp
    with True show ?thesis by (simp add: round_half_even_def Let_def)
  next
    case False
    with f1 have "\<lfloor>q\<rfloor> \<le> 0" by linarith
    then show ?thesis by (auto simp: round_half_even_def Let_def)
  qed
qed

lemma readstep_bond_line_level:
  assumes "readstep_bond_line ext (bnd, lvl, ts) line = Inr (bnd', lvl', ts')"
    and "line \<noteq> []" and "hd line \<noteq> CHR ''#''"
  shows "\<exists>k s2. py_int (split line ! 2) = Inr s2 \<and> k < length lvl \<and>
           lvl' = lvl[k := Some (map (bond_order ext)
                                  (py_slice (split line) (4 + s2) (4 + 2 * s2)))]"
proof -
  from assms obtain k0 i0 k2 s2 kb kl where
    "py_index (length (split line)) 2 = Inr k2" "py_int (split line ! k2) = Inr s2"
    "py_index (length lvl) (i0 - 1) = Inr kl"
    "lvl' = lvl[kl := Some (map (bond_order ext) (py_slice (split line) (4 + s2) (4 + 2 * s2)))]"
    by (auto simp: readstep_bond_line_def Let_def bindE_Inr_iff getitem_def split: if_splits)
  moreover from this(1) have "k2 = 2" by (auto dest: py_index_nat)
  ultimately show ?thesis using py_index_Inr by blast
qed

text \<open>
  Claim C5. In the bond-file reader the bond-order list of an atom line is the list of its
  bond-order fields, each converted by \<open>bond_order\<close>: a field that \<^verbatim>\<open>float\<close> reads as the
  number \<open>q\<close> becomes \<open>max 1 r\<close> for the integer \<open>r\<close> that \<^verbatim>\<open>round\<close> gives, which is at most
  one half away from \<open>q\<close>; any value below 1.5, such as the one read from \<open>1.4\<close>, becomes 1.
\<close>

theorem bond_file_order:
  assumes "readstep_bond_line ext (bnd, lvl, ts) line = Inr (bnd', lvl', ts')"
    and "line \<noteq> []" and "hd line \<noteq> CHR ''#''"
  shows "(\<exists>k s2. py_int (split line ! 2) = Inr s2 \<and> k < length lvl \<and>
            lvl' = lvl[k := Some (map (bond_order ext)
                                   (py_slice (split line) (4 + s2) (4 + 2 * s2)))]) \<and>
         (\<forall>x q. float_of ext x = Some (Finite q) \<longrightarrow>
            bond_order ext x = Inr (max 1 (round_half_even q)) \<and>
            \<bar>of_int (round_half_even q) - q\<bar> \<le> 1 / 2 \<and>
            (q < 3 / 2 \<longrightarrow> bond_order ext x = Inr 1))"
proof -
  have "bond_order ext x = Inr (max 1 (round_half_even q))"
    if "float_of ext x = Some (Finite q)" for x q
    using that by (simp add: bond_order_def py_float_def bindE_def)
  moreover have "max 1 (round_half_even q) = 1" if "q < 3 / 2" for q
    using round_half_even_low[OF that] by simp
  ultimately show ?thesis
    using readstep_bond_line_level[OF assms] round_half_even_nearest by auto
qed

theorem bond_file_order_witness:
  "readstep_bond_line example_bond_externals
     ([None, None], [None, None], Some 0) '' 1 1 1 2 0 1.4 1.4 0.000 0.000''
     = Inr ([Some [Inr 1], None], [Some [Inr 1], None], Some 0) \<and>
   '' 1 1 1 2 0 1.4 1.4 0.000 0.000'' \<noteq> [] \<and>
   hd '' 1 1 1 2 0 1.4 1.4 0.000 0.000'' \<noteq> CHR ''#'' \<and>
   float_of example_bond_externals ''1.4''
     = Some (Finite (6305039478318694 / 4503599627370496)) \<and>
   bond_order example_bond_externals ''1.4'' = Inr 1"
proof -
  let ?ext = "example_bond_externals"
  let ?line = "'' 1 1 1 2 0 1.4 1.4 0.000 0.000''"
  have run: "readstep_bond_line ?ext ([None, None], [None, None], Some 0) ?line
     = Inr ([Some [Inr 1], None], [Some [Inr 1], None], Some 0)"
    by code_simp
  have ne: "?line \<noteq> []" by simp
  have hd: "hd ?line \<noteq> CHR ''#''" by simp
  have fl: "float_of ?ext ''1.4'' = Some (Finite (6305039478318694 / 4503599627370496))"
    by (simp add: example_bond_externals_def example_float_def)
  have lt: "(6305039478318694 / 4503599627370496 :: rat) < 3 / 2" by simp
  from bond_file_order[OF run ne hd] fl lt
  have "bond_order ?ext ''1.4'' = Inr 1" by blast
  with run ne hd fl show ?thesis by simp
qed

section \<open>Properties of the header scan\<close>

lemma position_of_None: "position_of keys x = None \<longleftrightarrow> x \<notin> set keys"
  by (induction keys) auto

lemma list_index_missing: "x \<notin> set keys \<Longrightarrow> list_index keys x = Inl (ValueError x)"
  using position_of_None[of keys x] by (simp add: list_index_def)

lemma list_index_present: "x \<in> set keys \<Longrightarrow> \<exists>k. list_index keys x = Inr k"
  using position_of_None[of keys x] by (cases "position_of keys x") (auto simp: list_index_def)

lemma startswith_append: "startswith s (p @ q) \<Longrightarrow> startswith s p"
proof -
  assume "startswith s (p @ q)"
  then have "take (length p) (take (length (p @ q)) s) = take (length p) (p @ q)"
    by (simp only: startswith_def)
  then show ?thesis by (simp add: startswith_def min_def)
qed

lemma startswith_same_length:
  "startswith s p \<Longrightarrow> startswith s q \<Longrightarrow> length p = length q \<Longrightarrow> p = q"
  by (simp add: startswith_def)

lemma readN_dump_line_missing:
  assumes "startswith line ''ITEM: ATOMS''"
    and "filter (\<lambda>c. c \<notin> set (split line)) [''id'', ''type'', ''x'', ''y'', ''z''] = c # cs"
  shows "readN_dump_line index st line = Inl (ValueError c)"
proof -
  from assms(1) have item: "startswith line ''ITEM:''"
    using startswith_append[of line "''ITEM:''" "'' ATOMS''"] by simp
  from assms(1) have a: "startswith line ''ITEM: A''"
    using startswith_append[of line "''ITEM: A''" "''TOMS''"] by simp
  have "\<not> startswith line ''ITEM: TIMESTEP''"
  proof
    assume "startswith line ''ITEM: TIMESTEP''"
    then have "startswith line ''ITEM: T''"
      using startswith_append[of line "''ITEM: T''" "''IMESTEP''"] by simp
    from startswith_same_length[OF a this] show False by simp
  qed
  with assms(1) have lc: "linecontent_of line = ATOMS" by (simp add: linecontent_of_def)
  let ?keys = "split line"
  show ?thesis
  proof (cases "''id'' \<in> set ?keys")
    case False
    with assms(2) item lc show ?thesis
      by (simp add: readN_dump_line_def list_index_missing bindE_def)
  next
    case id: True
    then obtain i where i: "list_index ?keys ''id'' = Inr i" using list_index_present by blast
    show ?thesis
    proof (cases "''type'' \<in> set ?keys")
      case False
      with assms(2) item lc id i show ?thesis
        by (simp add: readN_dump_line_def list_index_missing bindE_def)
    next
      case ty: True
      then obtain t where t: "list_index ?keys ''type'' = Inr t" using list_index_present by blast
      show ?thesis
      proof (cases "''x'' \<in> set ?keys")
        case False
        with assms(2) item lc id i ty t show ?thesis
          by (simp add: readN_dump_line_def list_index_missing bindE_def)
      next
        case x: True
        then obtain kx where kx: "list_index ?keys ''x'' = Inr kx" using list_index_present by blast
        show ?thesis
        proof (cases "''y'' \<in> set ?keys")
          case False
          with assms(2) item lc id i ty t x kx show ?thesis
            by (simp add: readN_dump_line_def list_index_missing bindE_def)
        next
          case y: True
          then obtain ky where ky: "list_index ?keys ''y'' = Inr ky"
            using list_index_present by blast
          from assms(2) id ty x y have "''z'' \<notin> set ?keys" "c = ''z''"
            by (auto split: if_splits)
          with item lc i t kx ky show ?thesis
            by (simp add: readN_dump_line_def list_index_missing bindE_def)
        qed
      qed
    qed
  qed
qed

lemma readN_bond_line_missing:
  assumes "startswith line ''# Number of particles''" and "\<not> iscompleted st"
    and "filter isdigit (split line) = []"
  shows "readN_bond_line index st line = Inl IndexError"
proof -
  from assms(1) have "startswith line ''#''"
    using startswith_append[of line "''#''" "'' Number of particles''"] by simp
  then have "line \<noteq> []" "hd line = CHR ''#''"
    by (cases line; simp add: startswith_def)+
  with assms show ?thesis
    by (simp add: readN_bond_line_def bindE_def getitem_def py_index_def)
qed


lemma readN_bond_line_break:
  "readN_bond_line index st line = Inr (Some k, st') \<Longrightarrow> k \<le> index"
  by (auto simp: readN_bond_line_def bindE_Inr_iff split: if_splits)

lemma readN_dump_line_break:
  "readN_dump_line index st line = Inr (Some k, st') \<Longrightarrow> k \<le> index"
  by (auto simp: readN_dump_line_def Let_def bindE_Inr_iff
      split: if_splits option.splits LineType.splits)

lemma readN_loop_result:
  assumes "\<And>index st line k st'. body index st line = Inr (Some k, st') \<Longrightarrow> k \<le> index"
  shows "readN_loop body i st0 lines = Inr (k, st) \<Longrightarrow> k \<le> i + length lines"
proof (induction lines arbitrary: i st0)
  case Nil
  then show ?case by simp
next
  case (Cons line lines)
  then show ?case
    by (fastforce split: sum.splits option.splits dest: assms)
qed

lemma readN_loop_append:
  assumes brk: "\<And>index st line k st'. body index st line = Inr (Some k, st') \<Longrightarrow> k \<le> index"
  shows "readN_loop body i st0 pre = Inr (i + length pre, st) \<Longrightarrow>
         readN_loop body i st0 (pre @ rest) = readN_loop body (i + length pre) st rest"
proof (induction pre arbitrary: i st0)
  case Nil
  then show ?case by simp
next
  case (Cons line pre)
  show ?case
  proof (cases "body i st0 line")
    case (Inl e)
    with Cons.prems show ?thesis by simp
  next
    case (Inr r)
    obtain b st1 where r: "r = (b, st1)" by (cases r)
    show ?thesis
    proof (cases b)
      case None
      with Inr r Cons.prems have "readN_loop body (Suc i) st1 pre = Inr (Suc i + length pre, st)"
        by simp
      from Cons.IH[OF this] Inr r None show ?thesis by simp
    next
      case (Some k)
      with Inr r brk have "k \<le> i" by blast
      with Inr r Some Cons.prems show ?thesis by simp
    qed
  qed
qed

lemma readN_fails_at:
  assumes brk: "\<And>index st line k st'. body index st line = Inr (Some k, st') \<Longrightarrow> k \<le> index"
    and pre: "readN_loop body 0 headscan_init pre = Inr (length pre, st)"
    and line: "body (length pre) st line = Inl e"
  shows "readN body (pre @ line # post) = Inl e"
proof -
  from pre have "readN_loop body 0 headscan_init pre = Inr (0 + length pre, st)" by simp
  from readN_loop_append[where rest="line # post", OF brk this] line
  have "readN_loop body 0 headscan_init (pre @ line # post) = Inl e" by simp
  then show ?thesis by (simp add: readN_def bindE_def)
qed

lemma readinputfile_header_error:
  "readNfunc cfg f = Inl e \<Longrightarrow>
   readinputfile ext cfg f completion = \<lparr>dispatched = [], outcome = Inl e\<rparr>"
  by (simp add: readinputfile_def)

text \<open>
  Claim C8, as amended. When the header scan raises an exception, the run ends with that
  exception and no block is handed to the pool. In a dump file a column line that lacks
  one of the columns \<open>id\<close>, \<open>type\<close>, \<open>x\<close>, \<open>y\<close>, \<open>z\<close>, read before the end of the first
  timestep, raises the \<^verbatim>\<open>ValueError\<close> of \<^verbatim>\<open>list.index\<close> for the first missing column; in a
  bond file a first count line without a number raises \<^verbatim>\<open>IndexError\<close>.
\<close>

theorem header_failure_before_dispatch:
  "(readNfunc cfg f = Inl e \<longrightarrow>
      readinputfile ext cfg f completion = \<lparr>dispatched = [], outcome = Inl e\<rparr>) \<and>
   (inputtype cfg = LAMMPSDUMP \<and>
    readN_loop readN_dump_line 0 headscan_init pre = Inr (length pre, st) \<and>
    startswith line ''ITEM: ATOMS'' \<and>
    filter (\<lambda>c. c \<notin> set (split line)) [''id'', ''type'', ''x'', ''y'', ''z''] = c # cs \<longrightarrow>
      readinputfile ext cfg (pre @ line # post) completion
        = \<lparr>dispatched = [], outcome = Inl (ValueError c)\<rparr>) \<and>
   (inputtype cfg = LAMMPSBOND \<and>
    readN_loop readN_bond_line 0 headscan_init pre = Inr (length pre, st) \<and>
    \<not> iscompleted st \<and>
    startswith line ''# Number of particles'' \<and>
    filter isdigit (split line) = [] \<longrightarrow>
      readinputfile ext cfg (pre @ line # post) completion
        = \<lparr>dispatched = [], outcome = Inl IndexError\<rparr>)"
proof (intro conjI impI)
  assume "readNfunc cfg f = Inl e"
  then show "readinputfile ext cfg f completion = \<lparr>dispatched = [], outcome = Inl e\<rparr>"
    by (rule readinputfile_header_error)
next
  assume a: "inputtype cfg = LAMMPSDUMP \<and>
    readN_loop readN_dump_line 0 headscan_init pre = Inr (length pre, st) \<and>
    startswith line ''ITEM: ATOMS'' \<and>
    filter (\<lambda>c. c \<notin> set (split line)) [''id'', ''type'', ''x'', ''y'', ''z''] = c # cs"
  then have "readN_dump_line (length pre) st line = Inl (ValueError c)"
    using readN_dump_line_missing by blast
  with a have "readN readN_dump_line (pre @ line # post) = Inl (ValueError c)"
    using readN_fails_at[of readN_dump_line pre st line "ValueError c" post]
      readN_dump_line_break by blast
  with a have "readNfunc cfg (pre @ line # post) = Inl (ValueError c)"
    by (simp add: readNfunc_def readNfunc_dump_def)
  then show "readinputfile ext cfg (pre @ line # post) completion
        = \<lparr>dispatched = [], outcome = Inl (ValueError c)\<rparr>"
    by (rule readinputfile_header_error)
next
  assume a: "inputtype cfg = LAMMPSBOND \<and>
    readN_loop readN_bond_line 0 headscan_init pre = Inr (length pre, st) \<and>
    \<not> iscompleted st \<and>
    startswith line ''# Number of particles'' \<and>
    filter isdigit (split line) = []"
  then have "readN_bond_line (length pre) st line = Inl IndexError"
    using readN_bond_line_missing by blast
  with a have "readN readN_bond_line (pre @ line # post) = Inl IndexError"
    using readN_fails_at[of readN_bond_line pre st line IndexError post]
      readN_bond_line_break by blast
  with a have "readNfunc cfg (pre @ line # post) = Inl IndexError"
    by (simp add: readNfunc_def readNfunc_bond_def)
  then show "readinputfile ext cfg (pre @ line # post) completion
        = \<lparr>dispatched = [], outcome = Inl IndexError\<rparr>"
    by (rule readinputfile_header_error)
qed

theorem header_failure_before_dispatch_witness:
  "inputtype example_dump_config = LAMMPSDUMP \<and>
   readN_loop readN_dump_line 0 headscan_init example_dump_head
     = Inr (length example_dump_head,
            headscan_init\<lparr>iscompleted := True, stepaindex := 3, natoms := Some (2, [0, 0]),
                            content := Some BOX\<rparr>) \<and>
   startswith ''ITEM: ATOMS id x y z'' ''ITEM: ATOMS'' \<and>
   filter (\<lambda>c. c \<notin> set (split ''ITEM: ATOMS id x y z'')) [''id'', ''type'', ''x'', ''y'', ''z'']
     = [''type''] \<and>
   readinputfile example_externals example_dump_config
     (example_dump_head @ ''ITEM: ATOMS id x y z'' # [''2 9.5 5 5'', ''1 0.5 5 5'']) [0]
     = \<lparr>dispatched = [], outcome = Inl (ValueError ''type'')\<rparr>"
proof -
  have h1: "inputtype example_dump_config = LAMMPSDUMP" by (simp add: example_dump_config_def)
  have h2: "readN_loop readN_dump_line 0 headscan_init example_dump_head
     = Inr (length example_dump_head,
            headscan_init\<lparr>iscompleted := True, stepaindex := 3, natoms := Some (2, [0, 0]),
                            content := Some BOX\<rparr>)"
    by code_simp
  have h3: "startswith ''ITEM: ATOMS id x y z'' ''ITEM: ATOMS''" by code_simp
  have h4: "filter (\<lambda>c. c \<notin> set (split ''ITEM: ATOMS id x y z''))
      [''id'', ''type'', ''x'', ''y'', ''z''] = [''type'']"
    by code_simp
  from header_failure_before_dispatch[of example_dump_config _ _ example_externals "[0]"
      example_dump_head _ "''ITEM: ATOMS id x y z''" "''type''" "[]"
      "[''2 9.5 5 5'', ''1 0.5 5 5'']"] h1 h2 h3 h4
  show ?thesis by blast
qed

text \<open>
  The claim as stated asks for a \<^verbatim>\<open>ParseError\<close> naming the missing field. A dump header
  without the column \<open>type\<close> ends the run with a \<^verbatim>\<open>ValueError\<close>, and a bond header whose
  count line has no number ends it with an \<^verbatim>\<open>IndexError\<close>, which names nothing.
\<close>

theorem header_failure_counterexample:
  "outcome (readinputfile example_externals example_dump_config
      (example_dump_head @ [''ITEM: ATOMS id x y z'', ''2 9.5 5 5'', ''1 0.5 5 5'']) [0])
     = Inl (ValueError ''type'') \<and>
   \<not> is_ParseError (outcome (readinputfile example_externals example_dump_config
      (example_dump_head @ [''ITEM: ATOMS id x y z'', ''2 9.5 5 5'', ''1 0.5 5 5'']) [0])) \<and>
   outcome (readinputfile example_externals example_bond_config
      [''# Timestep 0'', ''# '', ''# Number of particles'', ''# '',
       '' 1 1 1 2 0 1.4 1.4 0.000 0.000'', '' 2 1 1 1 0 1.4 1.4 0.000 0.000'', ''# ''] [0])
     = Inl IndexError \<and>
   \<not> is_ParseError (outcome (readinputfile example_externals example_bond_config
      [''# Timestep 0'', ''# '', ''# Number of particles'', ''# '',
       '' 1 1 1 2 0 1.4 1.4 0.000 0.000'', '' 2 1 1 1 0 1.4 1.4 0.000 0.000'', ''# ''] [0]))"
  by code_simp

section \<open>Properties of the run over the timesteps\<close>

lemma sampled_dvd: "0 < K \<Longrightarrow> sampled K n = filter (\<lambda>i. K dvd i) [0..<n]"
  by (simp add: sampled_def mod_eq_0_iff_dvd)

lemma work_items_blocks:
  "map snd (work_items nlines K f)
     = map (\<lambda>p. blocks nlines f ! p) (sampled K (length (blocks nlines f)))"
  by (simp add: work_items_def Let_def)

lemma work_items_steps:
  "map fst (work_items nlines K f) = [0..<length (sampled K (length (blocks nlines f)))]"
  by (simp add: work_items_def Let_def)

lemma filter_eq_distinct:
  "distinct xs \<Longrightarrow> j \<in> set xs \<Longrightarrow> filter (\<lambda>i. j = i) xs = [j]"
  by (induction xs) (auto simp: filter_empty_conv)

lemma run_mp_ordered:
  assumes "mset completion = mset [0..<length items]"
  shows "run_mp func items completion = map func items"
proof -
  let ?h = "\<lambda>i. (i, func (items ! i))"
  from assms have dist: "distinct completion"
    using mset_eq_imp_distinct_iff[of completion "[0..<length items]"] by simp
  from assms have set: "set completion = {0..<length items}"
    using mset_eq_setD[of completion "[0..<length items]"] by simp
  have "sort_key fst (map ?h completion) = map ?h [0..<length items]"
  proof (rule properties_for_sort_key)
    show "mset (map ?h [0..<length items]) = mset (map ?h completion)"
      using assms by simp
  next
    fix k assume "k \<in> set (map ?h [0..<length items])"
    then obtain j where j: "j < length items" "k = ?h j" by auto
    have "filter (\<lambda>x. fst k = fst x) (map ?h [0..<length items])
        = map ?h (filter (\<lambda>i. j = i) [0..<length items])"
      using j by (simp add: filter_map comp_def)
    also have "\<dots> = [?h j]" using j by (simp add: filter_eq_distinct)
    also have "\<dots> = map ?h (filter (\<lambda>i. j = i) completion)"
      using j dist set by (simp add: filter_eq_distinct)
    also have "\<dots> = filter (\<lambda>x. fst k = fst x) (map ?h completion)"
      using j by (simp add: filter_map comp_def)
    finally show "filter (\<lambda>x. fst k = fst x) (map ?h [0..<length items])
        = filter (\<lambda>x. fst k = fst x) (map ?h completion)" .
  next
    show "sorted (map fst (map ?h [0..<length items]))"
      by (simp add: comp_def)
  qed
  then have "run_mp func items completion = map (\<lambda>i. func (items ! i)) [0..<length items]"
    by (simp add: run_mp_def comp_def)
  also have "\<dots> = map func (map (\<lambda>i. items ! i) [0..<length items])"
    by (simp add: comp_def)
  also have "\<dots> = map func items"
    by (simp only: map_nth)
  finally show ?thesis .
qed


lemma run_mp_traced:
  assumes "mset completion = mset [0..<length items]"
  shows "map fst (run_mp (traced func) items completion) = items"
    and "map snd (run_mp (traced func) items completion) = map func items"
  by (simp_all add: run_mp_ordered[OF assms] comp_def traced_def)

lemma collect_dispatched:
  assumes "mset completion = mset [0..<length (work_items nlines K f)]"
  shows "dispatched (collect func nlines K f completion) = work_items nlines K f"
  by (simp add: collect_def Let_def run_mp_traced(1)[OF assms])

lemma collect_outcome:
  assumes "mset completion = mset [0..<length (work_items nlines K f)]"
  shows "outcome (collect func nlines K f completion)
     = foldE merge_result \<lparr>occurrences = [], timesteps = []\<rparr> (map func (work_items nlines K f))"
  by (simp add: collect_def Let_def run_mp_traced(2)[OF assms])

lemma dict_append_sorted:
  "\<forall>(k, vs) \<in> set d. sorted vs \<and> (\<forall>v \<in> set vs. v \<le> s) \<Longrightarrow>
   \<forall>(k, vs) \<in> set (dict_append d key s). sorted vs \<and> (\<forall>v \<in> set vs. v \<le> (s::nat))"
  by (induction d key s rule: dict_append.induct) (auto simp: sorted_append)

lemma fold_dict_append_sorted:
  "\<forall>(k, vs) \<in> set d. sorted vs \<and> (\<forall>v \<in> set vs. v \<le> s) \<Longrightarrow>
   \<forall>(k, vs) \<in> set (fold (\<lambda>molecule d. dict_append d molecule s) molecules d).
      sorted vs \<and> (\<forall>v \<in> set vs. v \<le> (s::nat))"
proof (induction molecules arbitrary: d)
  case Nil
  then show ?case by simp
next
  case (Cons m molecules)
  from Cons.IH[OF dict_append_sorted[OF Cons.prems]] show ?case by simp
qed

lemma foldE_merge_sorted:
  "foldE merge_result acc rs = Inr result \<Longrightarrow>
   \<forall>j < length rs. \<forall>mols s t. rs ! j = Inr (mols, (s, t)) \<longrightarrow> s = a + j \<Longrightarrow>
   \<forall>(k, vs) \<in> set (occurrences acc). sorted vs \<and> (\<forall>v \<in> set vs. v \<le> a) \<Longrightarrow>
   \<forall>(k, vs) \<in> set (occurrences result). sorted vs \<and> (\<forall>v \<in> set vs. v \<le> a + length rs)"
proof (induction rs arbitrary: acc a)
  case Nil
  then show ?case by simp
next
  case (Cons r rs)
  from Cons.prems(1) obtain acc' where m: "merge_result acc r = Inr acc'"
    and rest: "foldE merge_result acc' rs = Inr result"
    by (auto split: sum.splits)
  from m obtain mols s t where r: "r = Inr (mols, (s, t))"
    and acc': "occurrences acc' = fold (\<lambda>molecule d. dict_append d molecule s) mols (occurrences acc)"
    by (auto simp: merge_result_def split: sum.splits)
  from Cons.prems(2) r have s: "s = a" by force
  from fold_dict_append_sorted[OF Cons.prems(3), of mols] acc' s
  have inv: "\<forall>(k, vs) \<in> set (occurrences acc'). sorted vs \<and> (\<forall>v \<in> set vs. v \<le> Suc a)"
    by fastforce
  from Cons.prems(2)
  have "\<forall>j < length rs. \<forall>mols s t. rs ! j = Inr (mols, (s, t)) \<longrightarrow> s = Suc a + j"
    by fastforce
  from Cons.IH[OF rest this inv] show ?case by simp
qed

lemma readstep_dump_line_step:
  "readstep_dump_line ext an h step st line = Inr st' \<Longrightarrow>
   \<forall>x. timestep_of st = Some x \<longrightarrow> fst x = step \<Longrightarrow>
   \<forall>x. timestep_of st' = Some x \<longrightarrow> fst x = step"
  by (auto simp: readstep_dump_line_def bindE_Inr_iff
      split: if_splits option.splits LineType.splits)

lemma foldE_readstep_dump_step:
  "foldE (readstep_dump_line ext an h step) st lines = Inr st' \<Longrightarrow>
   \<forall>x. timestep_of st = Some x \<longrightarrow> fst x = step \<Longrightarrow>
   \<forall>x. timestep_of st' = Some x \<longrightarrow> fst x = step"
proof (induction lines arbitrary: st)
  case Nil
  then show ?case by simp
next
  case (Cons line lines)
  from Cons.prems(1) obtain st1 where
    l: "readstep_dump_line ext an h step st line = Inr st1"
    and r: "foldE (readstep_dump_line ext an h step) st1 lines = Inr st'"
    by (auto split: sum.splits)
  from Cons.IH[OF r readstep_dump_line_step[OF l Cons.prems(2)]] show ?case .
qed

lemma readstepfunc_step:
  assumes "readstepfunc ext cfg h (step, lines) = Inr (mols, (s, t))"
  shows "s = step"
proof (cases "inputtype cfg")
  case LAMMPSBOND
  with assms show ?thesis
    by (auto simp: readstepfunc_def readstepfunc_bond_def bindE_Inr_iff split: option.splits)
next
  case LAMMPSDUMP
  with assms obtain st where
    f: "foldE (readstep_dump_line ext (attr_atomname cfg) h step)
          \<lparr>atoms_of = [], box_of = [], section_of = None, timestep_of = None\<rparr> lines = Inr st"
    and t: "timestep_of st = Some (s, t)"
    by (auto simp: readstepfunc_def readstepfunc_dump_def bindE_Inr_iff split: option.splits)
  from foldE_readstep_dump_step[OF f] t show ?thesis by simp
qed

lemma work_items_nth:
  "j < length (work_items nlines K f) \<Longrightarrow> fst (work_items nlines K f ! j) = j"
  by (simp add: work_items_def Let_def)

text \<open>
  Claim C3. Whatever the order in which the workers finish, the occurrence list of every
  molecule key in the final dictionary is non-decreasing in the step index: the results
  reach the merge loop in the order of the steps, and the loop appends the step of each
  result to the lists of its molecules.
\<close>

theorem occurrences_step_ordered:
  assumes "readNfunc cfg f = Inr (nlines, h)"
    and "mset completion = mset [0..<length (work_items nlines (attr_stepinterval cfg) f)]"
    and "outcome (readinputfile ext cfg f completion) = Inr result"
  shows "\<forall>(key, steps) \<in> set (occurrences result). sorted steps"
proof -
  let ?items = "work_items nlines (attr_stepinterval cfg) f"
  let ?rs = "map (readstepfunc ext cfg h) ?items"
  from assms(1,3) have run: "foldE merge_result \<lparr>occurrences = [], timesteps = []\<rparr> ?rs = Inr result"
    by (simp add: readinputfile_def collect_outcome[OF assms(2)])
  have steps: "\<forall>j < length ?rs. \<forall>mols s t. ?rs ! j = Inr (mols, (s, t)) \<longrightarrow> s = 0 + j"
  proof (intro allI impI)
    fix j mols s t assume j: "j < length ?rs" and r: "?rs ! j = Inr (mols, (s, t))"
    obtain step lines where item: "?items ! j = (step, lines)" by (cases "?items ! j")
    with work_items_nth[of j nlines "attr_stepinterval cfg" f] j have "step = j" by simp
    with r j item readstepfunc_step[of ext cfg h step lines mols s t] show "s = 0 + j" by simp
  qed
  from foldE_merge_sorted[OF run steps] show ?thesis by auto
qed



theorem occurrences_step_ordered_witness:
  "readNfunc example_bond_config example_bond_file = Inr (7, example_bond_header) \<and>
   mset [2, 0, 3, 1]
     = mset [0..<length (work_items 7 (attr_stepinterval example_bond_config) example_bond_file)] \<and>
   outcome (readinputfile example_bond_externals example_bond_config example_bond_file
              [2, 0, 3, 1])
     = Inr \<lparr>occurrences = [(''01 011'', [0, 1, 2, 3])],
            timesteps = [(0, 0), (1, 0), (2, 0), (3, 0)]\<rparr> \<and>
   sorted [0, 1, 2, 3 :: nat]"
proof -
  have h1: "readNfunc example_bond_config example_bond_file = Inr (7, example_bond_header)"
    by code_simp
  have w: "length (work_items 7 (attr_stepinterval example_bond_config) example_bond_file) = 4"
    by code_simp
  have "[0..<4] = [0, 1, 2, 3]" by (simp add: upt_conv_Cons eval_nat_numeral)
  with w have h2: "mset [2, 0, 3, 1]
     = mset [0..<length (work_items 7 (attr_stepinterval example_bond_config) example_bond_file)]"
    by simp
  have h3: "outcome (readinputfile example_bond_externals example_bond_config example_bond_file
              [2, 0, 3, 1])
     = Inr \<lparr>occurrences = [(''01 011'', [0, 1, 2, 3])],
            timesteps = [(0, 0), (1, 0), (2, 0), (3, 0)]\<rparr>"
    by code_simp
  from occurrences_step_ordered[OF h1 h2 h3] have "sorted [0, 1, 2, 3 :: nat]" by simp
  with h1 h2 h3 show ?thesis by simp
qed

text \<open>
  The whole run is independent of the order in which the workers finish: any two orders
  give the same calls of the step function and the same dictionaries.
\<close>

lemma timeline_independent_of_completion:
  assumes "readNfunc cfg f = Inr (nlines, h)"
    and "mset c1 = mset [0..<length (work_items nlines (attr_stepinterval cfg) f)]"
    and "mset c2 = mset [0..<length (work_items nlines (attr_stepinterval cfg) f)]"
  shows "readinputfile ext cfg f c1 = readinputfile ext cfg f c2"
proof -
  have "run_mp (traced (readstepfunc ext cfg h)) (work_items nlines (attr_stepinterval cfg) f) c1
      = run_mp (traced (readstepfunc ext cfg h)) (work_items nlines (attr_stepinterval cfg) f) c2"
    by (simp only: run_mp_ordered[OF assms(2)] run_mp_ordered[OF assms(3)])
  with assms(1) show ?thesis
    by (simp add: readinputfile_def collect_def)
qed

lemma dict_set_new:
  "k \<notin> set (map fst d) \<Longrightarrow> map fst (dict_set d k v) = map fst d @ [k]"
  by (induction d k v rule: dict_set.induct) auto

lemma foldE_merge_timesteps:
  "foldE merge_result acc rs = Inr result \<Longrightarrow>
   \<forall>j < length rs. \<forall>mols s t. rs ! j = Inr (mols, (s, t)) \<longrightarrow> s = a + j \<Longrightarrow>
   map fst (timesteps acc) = [0..<a] \<Longrightarrow>
   map fst (timesteps result) = [0..<a + length rs]"
proof (induction rs arbitrary: acc a)
  case Nil
  then show ?case by simp
next
  case (Cons r rs)
  from Cons.prems(1) obtain acc' where m: "merge_result acc r = Inr acc'"
    and rest: "foldE merge_result acc' rs = Inr result"
    by (auto split: sum.splits)
  from m obtain mols s t where r: "r = Inr (mols, (s, t))"
    and acc': "timesteps acc' = dict_set (timesteps acc) s t"
    by (auto simp: merge_result_def split: sum.splits)
  from Cons.prems(2) r have s: "s = a" by force
  from Cons.prems(3) have "a \<notin> set (map fst (timesteps acc))" by simp
  from dict_set_new[OF this] acc' s Cons.prems(3)
  have inv: "map fst (timesteps acc') = [0..<Suc a]" by simp
  from Cons.prems(2)
  have "\<forall>j < length rs. \<forall>mols s t. rs ! j = Inr (mols, (s, t)) \<longrightarrow> s = Suc a + j"
    by fastforce
  from Cons.IH[OF rest this inv] show ?case by simp
qed

lemma work_items_dvd:
  "0 < K \<Longrightarrow>
   work_items nlines K f
     = zip [0..<length (filter (\<lambda>i. K dvd i) [0..<length (blocks nlines f)])]
         (map (\<lambda>p. blocks nlines f ! p) (filter (\<lambda>i. K dvd i) [0..<length (blocks nlines f)]))"
  by (simp add: work_items_def Let_def sampled_dvd)

lemma every_second_of_four: "filter (\<lambda>i. 2 dvd i) [0..<4] = [0, 2 :: nat]"
  by code_simp

lemma collect_cong:
  assumes "mset completion = mset [0..<length (work_items nlines K f)]"
    and "\<forall>item \<in> set (work_items nlines K f). func' item = func item"
  shows "collect func' nlines K f completion = collect func nlines K f completion"
proof -
  have "map (traced func') (work_items nlines K f) = map (traced func) (work_items nlines K f)"
    by (rule map_cong[OF refl]) (use assms(2) in \<open>simp add: traced_def\<close>)
  then show ?thesis
    by (simp only: collect_def run_mp_ordered[OF assms(1)])
qed

text \<open>
  Claim C9. With a sampling interval K, the step function is called on exactly the blocks
  of lines at the positions divisible by K, numbered in sequence, whatever the order in
  which the workers finish. The dictionaries are the merge of the results of these calls
  in that order, and a run that succeeds holds one timestep entry for each of them. Any
  step function that agrees with the one of the file format on these items gives the same
  run, so the lines of a skipped timestep are never read. With interval 2 and four
  timesteps the calls are on the blocks 0 and 2, and the dictionaries are the merge of
  their two results.
\<close>

theorem interval_sampling:
  assumes "0 < attr_stepinterval cfg"
    and "readNfunc cfg f = Inr (nlines, h)"
    and "mset completion = mset [0..<length (work_items nlines (attr_stepinterval cfg) f)]"
  shows "map snd (dispatched (readinputfile ext cfg f completion))
           = map (\<lambda>p. blocks nlines f ! p)
               (filter (\<lambda>i. attr_stepinterval cfg dvd i) [0..<length (blocks nlines f)]) \<and>
         map fst (dispatched (readinputfile ext cfg f completion))
           = [0..<length (dispatched (readinputfile ext cfg f completion))] \<and>
         outcome (readinputfile ext cfg f completion)
           = foldE merge_result \<lparr>occurrences = [], timesteps = []\<rparr>
               (map (readstepfunc ext cfg h) (dispatched (readinputfile ext cfg f completion))) \<and>
         (\<forall>result. outcome (readinputfile ext cfg f completion) = Inr result \<longrightarrow>
            map fst (timesteps result)
              = [0..<length (filter (\<lambda>i. attr_stepinterval cfg dvd i)
                               [0..<length (blocks nlines f)])]) \<and>
         (\<forall>func'.
            (\<forall>item \<in> set (dispatched (readinputfile ext cfg f completion)).
               func' item = readstepfunc ext cfg h item) \<longrightarrow>
            collect func' nlines (attr_stepinterval cfg) f completion
              = readinputfile ext cfg f completion) \<and>
         (attr_stepinterval cfg = 2 \<and> length (blocks nlines f) = 4 \<longrightarrow>
            dispatched (readinputfile ext cfg f completion)
              = [(0, blocks nlines f ! 0), (1, blocks nlines f ! 2)] \<and>
            outcome (readinputfile ext cfg f completion)
              = foldE merge_result \<lparr>occurrences = [], timesteps = []\<rparr>
                  [readstepfunc ext cfg h (0, blocks nlines f ! 0),
                   readstepfunc ext cfg h (1, blocks nlines f ! 2)])"
proof -
  let ?K = "attr_stepinterval cfg"
  let ?R = "readinputfile ext cfg f completion"
  let ?ps = "filter (\<lambda>i. ?K dvd i) [0..<length (blocks nlines f)]"
  let ?items = "work_items nlines ?K f"
  have R: "?R = collect (readstepfunc ext cfg h) nlines ?K f completion"
    using assms(2) by (simp add: readinputfile_def)
  have d: "dispatched ?R = ?items"
    by (simp only: R collect_dispatched[OF assms(3)])
  have o: "outcome ?R = foldE merge_result \<lparr>occurrences = [], timesteps = []\<rparr>
      (map (readstepfunc ext cfg h) ?items)"
    by (simp only: R collect_outcome[OF assms(3)])
  have w: "?items = zip [0..<length ?ps] (map (\<lambda>p. blocks nlines f ! p) ?ps)"
    by (rule work_items_dvd[OF assms(1)])
  have len: "length ?items = length ?ps"
    by (subst w) simp
  have a: "map snd (dispatched ?R) = map (\<lambda>p. blocks nlines f ! p) ?ps"
    by (simp only: d) (subst w, simp)
  have b: "map fst (dispatched ?R) = [0..<length (dispatched ?R)]"
    by (simp only: d len) (subst w, simp)
  have c: "outcome ?R = foldE merge_result \<lparr>occurrences = [], timesteps = []\<rparr>
      (map (readstepfunc ext cfg h) (dispatched ?R))"
    by (simp only: o d)
  have t: "map fst (timesteps result) = [0..<length ?ps]"
    if "outcome ?R = Inr result" for result
  proof -
    let ?rs = "map (readstepfunc ext cfg h) ?items"
    from that o have run: "foldE merge_result \<lparr>occurrences = [], timesteps = []\<rparr> ?rs = Inr result"
      by simp
    have steps: "\<forall>j < length ?rs. \<forall>mols s t. ?rs ! j = Inr (mols, (s, t)) \<longrightarrow> s = 0 + j"
    proof (intro allI impI)
      fix j mols s t assume j: "j < length ?rs" and r: "?rs ! j = Inr (mols, (s, t))"
      obtain step lines where item: "?items ! j = (step, lines)" by (cases "?items ! j")
      with work_items_nth[of j nlines ?K f] j have "step = j" by simp
      with r j item readstepfunc_step[of ext cfg h step lines mols s t] show "s = 0 + j" by simp
    qed
    from foldE_merge_timesteps[OF run steps] len show ?thesis by simp
  qed
  have e: "collect func' nlines ?K f completion = ?R"
    if "\<forall>item \<in> set (dispatched ?R). func' item = readstepfunc ext cfg h item" for func'
    using collect_cong[OF assms(3), of func' "readstepfunc ext cfg h"] that d R by simp
  have g: "dispatched ?R = [(0, blocks nlines f ! 0), (1, blocks nlines f ! 2)]"
    if "?K = 2" "length (blocks nlines f) = 4"
  proof -
    from that have "?ps = [0, 2]" using every_second_of_four by simp
    with w d show ?thesis by (simp add: upt_conv_Cons eval_nat_numeral)
  qed
  show ?thesis
  proof (intro conjI allI impI)
    show "map snd (dispatched ?R) = map (\<lambda>p. blocks nlines f ! p) ?ps" by (rule a)
    show "map fst (dispatched ?R) = [0..<length (dispatched ?R)]" by (rule b)
    show "outcome ?R = foldE merge_result \<lparr>occurrences = [], timesteps = []\<rparr>
      (map (readstepfunc ext cfg h) (dispatched ?R))" by (rule c)
  next
    fix result assume "outcome ?R = Inr result"
    then show "map fst (timesteps result) = [0..<length ?ps]" by (rule t)
  next
    fix func' assume "\<forall>item \<in> set (dispatched ?R). func' item = readstepfunc ext cfg h item"
    then show "collect func' nlines ?K f completion = ?R" by (rule e)
  next
    assume k: "?K = 2 \<and> length (blocks nlines f) = 4"
    then show "dispatched ?R = [(0, blocks nlines f ! 0), (1, blocks nlines f ! 2)]"
      using g by blast
    from k g have "dispatched ?R = [(0, blocks nlines f ! 0), (1, blocks nlines f ! 2)]" by blast
    with c show "outcome ?R = foldE merge_result \<lparr>occurrences = [], timesteps = []\<rparr>
                  [readstepfunc ext cfg h (0, blocks nlines f ! 0),
                   readstepfunc ext cfg h (1, blocks nlines f ! 2)]" by simp
  qed
qed

theorem interval_sampling_witness:
  "0 < attr_stepinterval (example_bond_config\<lparr>attr_stepinterval := 2\<rparr>) \<and>
   readNfunc (example_bond_config\<lparr>attr_stepinterval := 2\<rparr>) example_bond_run
     = Inr (7, example_bond_header) \<and>
   length (blocks 7 example_bond_run) = 4 \<and>
   mset [1, 0] = mset [0..<length (work_items 7 2 example_bond_run)] \<and>
   dispatched (readinputfile example_bond_externals (example_bond_config\<lparr>attr_stepinterval := 2\<rparr>)
     example_bond_run [1, 0])
     = [(0, example_bond_step ''0''), (1, example_bond_step ''200'')] \<and>
   outcome (readinputfile example_bond_externals (example_bond_config\<lparr>attr_stepinterval := 2\<rparr>)
     example_bond_run [1, 0])
     = foldE merge_result \<lparr>occurrences = [], timesteps = []\<rparr>
         [readstepfunc example_bond_externals (example_bond_config\<lparr>attr_stepinterval := 2\<rparr>)
            example_bond_header (0, example_bond_step ''0''),
          readstepfunc example_bond_externals (example_bond_config\<lparr>attr_stepinterval := 2\<rparr>)
            example_bond_header (1, example_bond_step ''200'')] \<and>
   outcome (readinputfile example_bond_externals (example_bond_config\<lparr>attr_stepinterval := 2\<rparr>)
     example_bond_run [1, 0])
     = Inr \<lparr>occurrences = [(''01 011'', [0, 1])], timesteps = [(0, 0), (1, 200)]\<rparr>"
proof -
  let ?cfg = "example_bond_config\<lparr>attr_stepinterval := 2\<rparr>"
  let ?R = "readinputfile example_bond_externals ?cfg example_bond_run [1, 0]"
  have k: "attr_stepinterval ?cfg = 2" by simp
  have h1: "0 < attr_stepinterval ?cfg" by simp
  have h2: "readNfunc ?cfg example_bond_run = Inr (7, example_bond_header)" by code_simp
  have n: "length (blocks 7 example_bond_run) = 4" by code_simp
  have b0: "blocks 7 example_bond_run ! 0 = example_bond_step ''0''" by code_simp
  have b2: "blocks 7 example_bond_run ! 2 = example_bond_step ''200''" by code_simp
  have w: "length (work_items 7 2 example_bond_run) = 2" by code_simp
  have "[0..<2] = [0, Suc 0]" by (simp add: upt_conv_Cons eval_nat_numeral)
  with w have h3: "mset [1, 0] = mset [0..<length (work_items 7 (attr_stepinterval ?cfg) example_bond_run)]"
    by simp
  have v: "outcome ?R
     = Inr \<lparr>occurrences = [(''01 011'', [0, 1])], timesteps = [(0, 0), (1, 200)]\<rparr>"
    by code_simp
  from interval_sampling[OF h1 h2 h3, of example_bond_externals]
  have "attr_stepinterval ?cfg = 2 \<and> length (blocks 7 example_bond_run) = 4 \<longrightarrow>
      dispatched ?R = [(0, blocks 7 example_bond_run ! 0), (1, blocks 7 example_bond_run ! 2)] \<and>
      outcome ?R = foldE merge_result \<lparr>occurrences = [], timesteps = []\<rparr>
         [readstepfunc example_bond_externals ?cfg example_bond_header
            (0, blocks 7 example_bond_run ! 0),
          readstepfunc example_bond_externals ?cfg example_bond_header
            (1, blocks 7 example_bond_run ! 2)]"
    by blast
  with k n
  have "dispatched ?R = [(0, blocks 7 example_bond_run ! 0), (1, blocks 7 example_bond_run ! 2)] \<and>
      outcome ?R = foldE merge_result \<lparr>occurrences = [], timesteps = []\<rparr>
         [readstepfunc example_bond_externals ?cfg example_bond_header
            (0, blocks 7 example_bond_run ! 0),
          readstepfunc example_bond_externals ?cfg example_bond_header
            (1, blocks 7 example_bond_run ! 2)]"
    by blast
  then have "dispatched ?R = [(0, example_bond_step ''0''), (1, example_bond_step ''200'')] \<and>
      outcome ?R = foldE merge_result \<lparr>occurrences = [], timesteps = []\<rparr>
         [readstepfunc example_bond_externals ?cfg example_bond_header (0, example_bond_step ''0''),
          readstepfunc example_bond_externals ?cfg example_bond_header (1, example_bond_step ''200'')]"
    by (simp only: b0 b2)
  with h1 h2 n h3 k v show ?thesis by simp
qed

section \<open>Properties of the dump-file reader\<close>

lemma atoms_header:
  assumes "startswith line ''ITEM: ATOMS''"
  shows "line \<noteq> [] \<and> startswith line ''ITEM:'' \<and> linecontent_of line = ATOMS"
proof -
  from assms have item: "startswith line ''ITEM:''"
    using startswith_append[of line "''ITEM:''" "'' ATOMS''"] by simp
  from assms have a: "startswith line ''ITEM: A''"
    using startswith_append[of line "''ITEM: A''" "''TOMS''"] by simp
  have "\<not> startswith line ''ITEM: TIMESTEP''"
  proof
    assume "startswith line ''ITEM: TIMESTEP''"
    then have "startswith line ''ITEM: T''"
      using startswith_append[of line "''ITEM: T''" "''IMESTEP''"] by simp
    from startswith_same_length[OF a this] show False by simp
  qed
  with assms have "linecontent_of line = ATOMS" by (simp add: linecontent_of_def)
  moreover from item have "line \<noteq> []" by (auto simp: startswith_def)
  ultimately show ?thesis using item by simp
qed

lemma foldE_append:
  "foldE f st (xs @ ys) = bindE (foldE f st xs) (\<lambda>st'. foldE f st' ys)"
  by (induction xs arbitrary: st) (auto simp: bindE_def split: sum.splits)

lemma mapE_Inr_iff: "mapE g xs = Inr ys \<longleftrightarrow> map g xs = map Inr ys"
proof (induction xs arbitrary: ys)
  case Nil
  then show ?case by auto
next
  case (Cons x xs)
  show ?case
  proof (cases "g x")
    case (Inl e)
    then show ?thesis by (cases ys) auto
  next
    case (Inr y)
    show ?thesis
    proof (cases "mapE g xs")
      case (Inl e)
      with Cons.IH Inr show ?thesis by (cases ys) auto
    next
      case r: (Inr zs)
      with Cons.IH[of zs] have "map g xs = map Inr zs" by simp
      with Inr r show ?thesis by (cases ys) auto
    qed
  qed
qed

lemma mapE_permuted:
  assumes "mapE g xs = Inr as" and "mset ys = mset xs"
  shows "\<exists>bs. mapE g ys = Inr bs \<and> mset bs = mset as"
proof -
  from assms(1) have m: "map g xs = map Inr as" by (simp add: mapE_Inr_iff)
  then have "map projr (map g xs) = map projr (map Inr as)" by simp
  then have as: "as = map (\<lambda>x. projr (g x)) xs" by (simp add: comp_def)
  have ok: "\<forall>x \<in> set xs. \<exists>a. g x = Inr a"
  proof
    fix x assume "x \<in> set xs"
    then have "g x \<in> set (map g xs)" by simp
    with m show "\<exists>a. g x = Inr a" by auto
  qed
  from assms(2) have "set ys = set xs" by (rule mset_eq_setD)
  with ok have "\<forall>y \<in> set ys. g y = Inr (projr (g y))" by auto
  then have "map g ys = map Inr (map (\<lambda>y. projr (g y)) ys)" by simp
  then have "mapE g ys = Inr (map (\<lambda>y. projr (g y)) ys)" by (simp only: mapE_Inr_iff)
  moreover have "mset (map (\<lambda>y. projr (g y)) ys) = mset as"
    using assms(2) as by simp
  ultimately show ?thesis by blast
qed


lemma atom_lines_fold:
  "\<forall>l \<in> set body. \<not> startswith l ''ITEM:'' \<Longrightarrow> section_of st = Some ATOMS \<Longrightarrow>
   foldE (readstep_dump_line ext an h step) st body
     = bindE (mapE (\<lambda>l. atom_of_line ext an h (split l)) (filter (\<lambda>l. l \<noteq> []) body))
         (\<lambda>as. Inr (st\<lparr>atoms_of := atoms_of st @ as\<rparr>))"
proof (induction body arbitrary: st)
  case Nil
  then show ?case by (simp add: bindE_def)
next
  case (Cons l body)
  show ?case
  proof (cases "l = []")
    case True
    with Cons show ?thesis by (simp add: readstep_dump_line_def)
  next
    case False
    show ?thesis
    proof (cases "atom_of_line ext an h (split l)")
      case (Inl e)
      with False Cons.prems show ?thesis
        by (simp add: readstep_dump_line_def bindE_def)
    next
      case (Inr a)
      let ?st1 = "st\<lparr>atoms_of := atoms_of st @ [a]\<rparr>"
      from Inr False Cons.prems
      have l: "readstep_dump_line ext an h step st l = Inr ?st1"
        by (simp add: readstep_dump_line_def bindE_def)
      from Cons.prems have "section_of ?st1 = Some ATOMS" by simp
      from Cons.IH[OF _ this] Cons.prems(1)
      have "foldE (readstep_dump_line ext an h step) ?st1 body
         = bindE (mapE (\<lambda>l. atom_of_line ext an h (split l)) (filter (\<lambda>l. l \<noteq> []) body))
             (\<lambda>as. Inr (?st1\<lparr>atoms_of := atoms_of ?st1 @ as\<rparr>))"
        by simp
      with l Inr False show ?thesis
        by (simp add: bindE_def split: sum.splits)
    qed
  qed
qed

lemma readstep_dump_line_atoms:
  assumes "readstep_dump_line ext an h step st line = Inr st'"
  shows "\<exists>new. atoms_of st' = atoms_of st @ new \<and>
     (\<forall>A. readstep_dump_line ext an h step (st\<lparr>atoms_of := A\<rparr>) line
            = Inr (st'\<lparr>atoms_of := A @ new\<rparr>))"
proof (cases "line = [] \<or> startswith line ''ITEM:''")
  case True
  with assms have "atoms_of st' = atoms_of st @ []"
    by (auto simp: readstep_dump_line_def split: if_splits)
  moreover from True assms
  have "\<forall>A. readstep_dump_line ext an h step (st\<lparr>atoms_of := A\<rparr>) line
            = Inr (st'\<lparr>atoms_of := A @ []\<rparr>)"
    by (auto simp: readstep_dump_line_def split: if_splits)
  ultimately show ?thesis by blast
next
  case False
  with assms obtain lt where lt: "section_of st = Some lt"
    by (auto simp: readstep_dump_line_def split: option.splits)
  show ?thesis
  proof (cases "lt = ATOMS")
    case True
    with False lt assms obtain a where a: "atom_of_line ext an h (split line) = Inr a"
      and st': "st' = st\<lparr>atoms_of := atoms_of st @ [a]\<rparr>"
      by (auto simp: readstep_dump_line_def bindE_Inr_iff)
    from st' have "atoms_of st' = atoms_of st @ [a]" by simp
    moreover from False lt True a st'
    have "\<forall>A. readstep_dump_line ext an h step (st\<lparr>atoms_of := A\<rparr>) line
            = Inr (st'\<lparr>atoms_of := A @ [a]\<rparr>)"
      by (simp add: readstep_dump_line_def bindE_def)
    ultimately show ?thesis by blast
  next
    case na: False
    with False lt assms have "atoms_of st' = atoms_of st @ []"
      by (cases lt) (auto simp: readstep_dump_line_def bindE_Inr_iff)
    moreover from False lt na assms
    have "\<forall>A. readstep_dump_line ext an h step (st\<lparr>atoms_of := A\<rparr>) line
            = Inr (st'\<lparr>atoms_of := A @ []\<rparr>)"
      by (cases lt) (auto simp: readstep_dump_line_def bindE_def split: sum.splits)
    ultimately show ?thesis by blast
  qed
qed

lemma foldE_dump_atoms:
  "foldE (readstep_dump_line ext an h step) st lines = Inr st' \<Longrightarrow>
   \<exists>new. atoms_of st' = atoms_of st @ new \<and>
     (\<forall>A. foldE (readstep_dump_line ext an h step) (st\<lparr>atoms_of := A\<rparr>) lines
            = Inr (st'\<lparr>atoms_of := A @ new\<rparr>))"
proof (induction lines arbitrary: st)
  case Nil
  then have "atoms_of st' = atoms_of st @ []" by simp
  moreover from Nil
  have "\<forall>A. foldE (readstep_dump_line ext an h step) (st\<lparr>atoms_of := A\<rparr>) []
            = Inr (st'\<lparr>atoms_of := A @ []\<rparr>)" by simp
  ultimately show ?case by blast
next
  case (Cons line lines)
  from Cons.prems obtain st1 where
    l: "readstep_dump_line ext an h step st line = Inr st1"
    and r: "foldE (readstep_dump_line ext an h step) st1 lines = Inr st'"
    by (auto split: sum.splits)
  from readstep_dump_line_atoms[OF l] obtain n1 where
    n1: "atoms_of st1 = atoms_of st @ n1"
    "\<And>A. readstep_dump_line ext an h step (st\<lparr>atoms_of := A\<rparr>) line
            = Inr (st1\<lparr>atoms_of := A @ n1\<rparr>)"
    by blast
  from Cons.IH[OF r] obtain n2 where
    n2: "atoms_of st' = atoms_of st1 @ n2"
    "\<And>A. foldE (readstep_dump_line ext an h step) (st1\<lparr>atoms_of := A\<rparr>) lines
            = Inr (st'\<lparr>atoms_of := A @ n2\<rparr>)"
    by blast
  have "atoms_of st' = atoms_of st @ (n1 @ n2)" using n1(1) n2(1) by simp
  moreover have "foldE (readstep_dump_line ext an h step) (st\<lparr>atoms_of := A\<rparr>) (line # lines)
            = Inr (st'\<lparr>atoms_of := A @ (n1 @ n2)\<rparr>)" for A
    using n1(2)[of A] n2(2)[of "A @ n1"] by simp
  ultimately show ?case by blast
qed

lemma filter_key_distinct:
  "distinct (map f xs) \<Longrightarrow> k \<in> set xs \<Longrightarrow> filter (\<lambda>x. f k = f x) xs = [k]"
proof (induction xs)
  case Nil
  then show ?case by simp
next
  case (Cons x xs)
  show ?case
  proof (cases "x = k")
    case True
    with Cons.prems have "\<forall>y \<in> set xs. f k \<noteq> f y" by auto
    then have "filter (\<lambda>x. f k = f x) xs = []" by (simp add: filter_empty_conv)
    with True show ?thesis by simp
  next
    case False
    with Cons.prems have k: "k \<in> set xs" by simp
    from Cons.prems(1) have "f x \<notin> f ` set xs" by simp
    with k have "f k \<noteq> f x" by (metis imageI)
    with Cons k show ?thesis by simp
  qed
qed

lemma sort_key_permuted:
  assumes "mset ys = mset xs" and "distinct (map f xs)"
  shows "sort_key f ys = sort_key f xs"
proof (rule properties_for_sort_key)
  show "mset (sort_key f xs) = mset ys" using assms(1) by simp
next
  show "sorted (map f (sort_key f xs))" by simp
next
  fix k assume "k \<in> set (sort_key f xs)"
  then have kx: "k \<in> set xs" by simp
  with assms(1) have ky: "k \<in> set ys" using mset_eq_setD by blast
  from assms have "mset (map f ys) = mset (map f xs)" by simp
  with assms(2) have dy: "distinct (map f ys)"
    using mset_eq_imp_distinct_iff by blast
  have "mset (map f (sort_key f xs)) = mset (map f xs)" by simp
  with assms(2) have ds: "distinct (map f (sort_key f xs))"
    using mset_eq_imp_distinct_iff by blast
  from filter_key_distinct[OF ds \<open>k \<in> set (sort_key f xs)\<close>]
    filter_key_distinct[OF dy ky]
  show "filter (\<lambda>x. f k = f x) (sort_key f xs) = filter (\<lambda>x. f k = f x) ys" by simp
qed


lemma sorted_atoms_permuted:
  assumes "mset ys = mset xs" and "distinct (map fst xs)"
  shows "sorted_atoms ys = sorted_atoms xs"
proof -
  from assms(1) have "ys = [] \<longleftrightarrow> xs = []"
    by (metis mset_zero_iff)
  with sort_key_permuted[OF assms] show ?thesis by (simp add: sorted_atoms_def)
qed

text \<open>
  Claim C10. The dump-file step reader does not depend on the order of the atom lines of a
  timestep: when the atom lines that follow the column line are permuted, and the ids of
  the atoms of the timestep are distinct, the reader returns the same result, because it
  sorts the atoms by id before it builds the bond graph.
\<close>

theorem dump_step_line_order:
  assumes "pre \<noteq> []" and "startswith (last pre) ''ITEM: ATOMS''"
    and "\<forall>l \<in> set body1. \<not> startswith l ''ITEM:''"
    and "mset body2 = mset body1"
    and "foldE (readstep_dump_line ext atomname h step)
           \<lparr>atoms_of = [], box_of = [], section_of = None, timestep_of = None\<rparr>
           (pre @ body1 @ post) = Inr st"
    and "distinct (map fst (atoms_of st))"
  shows "readstepfunc_dump ext atomname pbc h (step, pre @ body2 @ post)
       = readstepfunc_dump ext atomname pbc h (step, pre @ body1 @ post)"
proof -
  let ?f = "readstep_dump_line ext atomname h step"
  let ?init = "\<lparr>atoms_of = [], box_of = [], section_of = None, timestep_of = None\<rparr>"
  let ?g = "\<lambda>l. atom_of_line ext atomname h (split l)"
  from assms(5) obtain s0 s1 where
    pre: "foldE ?f ?init pre = Inr s0" and b1: "foldE ?f s0 body1 = Inr s1"
    and post: "foldE ?f s1 post = Inr st"
    by (auto simp: foldE_append bindE_Inr_iff)
  from assms(1) have "pre = butlast pre @ [last pre]" by simp
  with pre have "foldE ?f ?init (butlast pre @ [last pre]) = Inr s0" by simp
  then obtain s where "foldE ?f s [last pre] = Inr s0"
    by (auto simp: foldE_append bindE_Inr_iff)
  then have "?f s (last pre) = Inr s0"
    by (cases "?f s (last pre)") simp_all
  with atoms_header[OF assms(2)] have sec: "section_of s0 = Some ATOMS"
    by (auto simp: readstep_dump_line_def)
  from b1 atom_lines_fold[OF assms(3) sec, of ext atomname h step]
  obtain as where as: "mapE ?g (filter (\<lambda>l. l \<noteq> []) body1) = Inr as"
    and s1: "s1 = s0\<lparr>atoms_of := atoms_of s0 @ as\<rparr>"
    by (auto simp: bindE_Inr_iff)
  from assms(4) have set2: "set body2 = set body1" by (rule mset_eq_setD)
  with assms(3) have item2: "\<forall>l \<in> set body2. \<not> startswith l ''ITEM:''" by simp
  from assms(4) have "mset (filter (\<lambda>l. l \<noteq> []) body2) = mset (filter (\<lambda>l. l \<noteq> []) body1)"
    by simp
  from mapE_permuted[OF as this] obtain bs where
    bs: "mapE ?g (filter (\<lambda>l. l \<noteq> []) body2) = Inr bs" and perm: "mset bs = mset as"
    by blast
  from atom_lines_fold[OF item2 sec, of ext atomname h step] bs
  have b2: "foldE ?f s0 body2 = Inr (s0\<lparr>atoms_of := atoms_of s0 @ bs\<rparr>)"
    by (simp add: bindE_def)
  from foldE_dump_atoms[OF post] obtain new where
    new: "atoms_of st = atoms_of s1 @ new"
    "\<And>A. foldE ?f (s1\<lparr>atoms_of := A\<rparr>) post = Inr (st\<lparr>atoms_of := A @ new\<rparr>)"
    by blast
  let ?st' = "st\<lparr>atoms_of := (atoms_of s0 @ bs) @ new\<rparr>"
  from new(2)[of "atoms_of s0 @ bs"] s1
  have "foldE ?f (s0\<lparr>atoms_of := atoms_of s0 @ bs\<rparr>) post = Inr ?st'" by simp
  with pre b2 have run2: "foldE ?f ?init (pre @ body2 @ post) = Inr ?st'"
    by (simp add: foldE_append bindE_def)
  from new(1) s1 have a1: "atoms_of st = (atoms_of s0 @ as) @ new" by simp
  with perm have "mset (atoms_of ?st') = mset (atoms_of st)" by simp
  from sorted_atoms_permuted[OF this assms(6)]
  have "sorted_atoms (atoms_of ?st') = sorted_atoms (atoms_of st)" .
  with run2 assms(5) show ?thesis
    by (simp add: readstepfunc_dump_def bindE_def cong: sum.case_cong)
qed


theorem dump_step_line_order_witness:
  "example_dump_head @ [''ITEM: ATOMS id type x y z''] \<noteq> [] \<and>
   startswith (last (example_dump_head @ [''ITEM: ATOMS id type x y z''])) ''ITEM: ATOMS'' \<and>
   \<not> startswith ''2 2 9.5 5 5'' ''ITEM:'' \<and>
   \<not> startswith ''1 1 0.5 5 5'' ''ITEM:'' \<and>
   mset [''1 1 0.5 5 5'', ''2 2 9.5 5 5''] = mset [''2 2 9.5 5 5'', ''1 1 0.5 5 5''] \<and>
   foldE (readstep_dump_line example_dump_externals [''O'', ''H''] example_dump_header 0)
     \<lparr>atoms_of = [], box_of = [], section_of = None, timestep_of = None\<rparr>
     ((example_dump_head @ [''ITEM: ATOMS id type x y z''])
        @ [''2 2 9.5 5 5'', ''1 1 0.5 5 5''] @ []) = Inr example_dump_state \<and>
   distinct (map fst (atoms_of example_dump_state)) \<and>
   readstepfunc_dump example_dump_externals [''O'', ''H''] True example_dump_header
     (0, (example_dump_head @ [''ITEM: ATOMS id type x y z''])
           @ [''2 2 9.5 5 5'', ''1 1 0.5 5 5''] @ []) = Inr ([''01 011''], (0, 0)) \<and>
   readstepfunc_dump example_dump_externals [''O'', ''H''] True example_dump_header
     (0, (example_dump_head @ [''ITEM: ATOMS id type x y z''])
           @ [''1 1 0.5 5 5'', ''2 2 9.5 5 5''] @ []) = Inr ([''01 011''], (0, 0))"
proof -
  let ?pre = "example_dump_head @ [''ITEM: ATOMS id type x y z'']"
  have h1: "?pre \<noteq> []" by simp
  have h2: "startswith (last ?pre) ''ITEM: ATOMS''" by code_simp
  have h3a: "\<not> startswith ''2 2 9.5 5 5'' ''ITEM:''" by code_simp
  have h3b: "\<not> startswith ''1 1 0.5 5 5'' ''ITEM:''" by code_simp
  from h3a h3b
  have h3: "\<forall>l \<in> set [''2 2 9.5 5 5'', ''1 1 0.5 5 5'']. \<not> startswith l ''ITEM:''"
    by simp
  have h4: "mset [''1 1 0.5 5 5'', ''2 2 9.5 5 5''] = mset [''2 2 9.5 5 5'', ''1 1 0.5 5 5'']"
    by simp
  have h5: "foldE (readstep_dump_line example_dump_externals [''O'', ''H''] example_dump_header 0)
     \<lparr>atoms_of = [], box_of = [], section_of = None, timestep_of = None\<rparr>
     (?pre @ [''2 2 9.5 5 5'', ''1 1 0.5 5 5''] @ []) = Inr example_dump_state"
    by code_simp
  have h6: "distinct (map fst (atoms_of example_dump_state))"
    by (simp add: example_dump_state_def)
  have run: "readstepfunc_dump example_dump_externals [''O'', ''H''] True example_dump_header
     (0, ?pre @ [''2 2 9.5 5 5'', ''1 1 0.5 5 5''] @ []) = Inr ([''01 011''], (0, 0))"
    by code_simp
  from dump_step_line_order[OF h1 h2 h3 h4 h5 h6, of True] run
  have "readstepfunc_dump example_dump_externals [''O'', ''H''] True example_dump_header
     (0, ?pre @ [''1 1 0.5 5 5'', ''2 2 9.5 5 5''] @ []) = Inr ([''01 011''], (0, 0))"
    by simp
  with h1 h2 h3a h3b h4 h5 h6 run show ?thesis by blast
qed

end
